theory Spec2Isabelle
  imports Complex_Main "HOL-Library.Multiset"
begin

section \<open>Python values used by \<^verbatim>\<open>scripts/json-export.py\<close>\<close>

text \<open>
  A Python \<^verbatim>\<open>str\<close> is a sequence of Unicode code points; \<^verbatim>\<open>len\<close> and slicing count code
  points, so a string is a list of code point numbers (not of bytes).
\<close>

type_synonym pystr = "nat list"

definition ascii :: "string \<Rightarrow> pystr" where
  "ascii s = map of_char s"

text \<open>The three placeholder literals of lines 82, 83 and 85, as code points.\<close>

definition unknown_building :: pystr where
  "unknown_building = [19981, 26126, 12394, 24314, 31689, 29289]"

definition unknown_architect :: pystr where
  "unknown_architect = [19981, 26126, 12394, 24314, 31689, 23478]"

definition unknown_address :: pystr where
  "unknown_address = [20303, 25152, 19981, 26126]"

text \<open>
  Modelled from the spec: the column types of \<^verbatim>\<open>ZCDARCHITECTURE\<close>, whose schema is not
  part of the sources. Section 3 of the specification gives \<open>id\<close> as a number that is
  always present, \<open>year\<close> as an optional integer, latitude and longitude as optional
  floating point numbers and every other column as optional text. The columns are those
  the SELECT of lines 52-74 names. \<open>None\<close> is SQL NULL (Python \<^verbatim>\<open>None\<close>). Floating point
  values are only copied, so their type is the parameter \<open>'f\<close>. The output item of lines
  80-98 is a dict with the same seventeen keys, so it has the same type. The key
  \<^verbatim>\<open>id\<close> is the field \<open>id'\<close>.
\<close>

record 'f row =
  id' :: int
  title :: "pystr option"
  architect :: "pystr option"
  year :: "int option"
  address :: "pystr option"
  latitude :: "'f option"
  longitude :: "'f option"
  category :: "pystr option"
  big_category :: "pystr option"
  description :: "pystr option"
  image_url :: "pystr option"
  tags :: "pystr option"
  prefecture :: "pystr option"
  contractor :: "pystr option"
  structural_designer :: "pystr option"
  landscape_designer :: "pystr option"
  shinkenchiku_url :: "pystr option"

text \<open>Python truthiness of an optional string and of an optional integer.\<close>

definition truthy_str :: "pystr option \<Rightarrow> bool" where
  "truthy_str v = (case v of None \<Rightarrow> False | Some s \<Rightarrow> s \<noteq> [])"

definition truthy_int :: "int option \<Rightarrow> bool" where
  "truthy_int v = (case v of None \<Rightarrow> False | Some n \<Rightarrow> n \<noteq> 0)"

text \<open>\<^verbatim>\<open>v or d\<close> for an optional string \<open>v\<close> and a string literal \<open>d\<close>.\<close>

definition py_or :: "pystr option \<Rightarrow> pystr \<Rightarrow> pystr option" where
  "py_or v d = (if truthy_str v then v else Some d)"

text \<open>
  \<^verbatim>\<open>row["year"] if row["year"] and row["year"] > 0 else None\<close> (line 84).
\<close>

definition year_or_none :: "int option \<Rightarrow> int option" where
  "year_or_none v = (if truthy_int v \<and> (case v of Some n \<Rightarrow> n > 0 | None \<Rightarrow> False) then v else None)"

text \<open>The dict literal of lines 80-98.\<close>

definition make_item :: "'f row \<Rightarrow> 'f row" where
  "make_item r = \<lparr>
     id' = id' r,
     title = py_or (title r) unknown_building,
     architect = py_or (architect r) unknown_architect,
     year = year_or_none (year r),
     address = py_or (address r) unknown_address,
     latitude = latitude r,
     longitude = longitude r,
     category = category r,
     big_category = big_category r,
     description = description r,
     image_url = image_url r,
     tags = tags r,
     prefecture = prefecture r,
     contractor = contractor r,
     structural_designer = structural_designer r,
     landscape_designer = landscape_designer r,
     shinkenchiku_url = shinkenchiku_url r \<rparr>"

section \<open>String operations of the index builder\<close>

text \<open>
  \<^verbatim>\<open>str.lower\<close> follows the Unicode case tables and is not a fixed function of this
  development: every definition that lowers a string takes the lowering function as its
  first argument \<open>lower\<close>, and every theorem holds for any such function.
  \<open>ascii_lower\<close> agrees with \<^verbatim>\<open>str.lower\<close> on strings made of ASCII and of caseless
  code points (kana, CJK ideographs); it is used to evaluate concrete inputs of that kind.
\<close>

definition ascii_lower :: "pystr \<Rightarrow> pystr" where
  "ascii_lower s = map (\<lambda>c. if 65 \<le> c \<and> c \<le> 90 then c + 32 else c) s"

text \<open>The code points for which \<^verbatim>\<open>str.isspace\<close> holds; \<^verbatim>\<open>str.split()\<close> splits at them.\<close>

definition isspace :: "nat \<Rightarrow> bool" where
  "isspace c = (c \<in> set [9, 10, 11, 12, 13, 28, 29, 30, 31, 32, 133, 160, 5760,
     8192, 8193, 8194, 8195, 8196, 8197, 8198, 8199, 8200, 8201, 8202,
     8232, 8233, 8239, 8287, 12288])"

text \<open>
  \<^verbatim>\<open>s.split()\<close>: the maximal runs of non-space code points, in order. \<open>split_from cur s\<close>
  scans \<open>s\<close> with the token read so far in \<open>cur\<close>.
\<close>

fun split_from :: "pystr \<Rightarrow> pystr \<Rightarrow> pystr list" where
  "split_from cur [] = (if cur = [] then [] else [cur])"
| "split_from cur (c # cs) =
     (if isspace c then (if cur = [] then split_from [] cs else cur # split_from [] cs)
      else split_from (cur @ [c]) cs)"

definition py_split :: "pystr \<Rightarrow> pystr list" where
  "py_split s = split_from [] s"

text \<open>\<^verbatim>\<open>str(n)\<close> for an integer: its decimal digits, with a minus sign below zero.\<close>

function str_nat :: "nat \<Rightarrow> pystr" where
  "str_nat n = (if n < 10 then [48 + n] else str_nat (n div 10) @ [48 + n mod 10])"
  by pat_completeness auto
termination
  by (relation "measure (\<lambda>n. n)") auto

declare str_nat.simps [simp del]

definition py_str :: "int \<Rightarrow> pystr" where
  "py_str i = (if i < 0 then 45 # str_nat (nat (- i)) else str_nat (nat i))"

section \<open>The search index (lines 115-165)\<close>

text \<open>
  A Python dict keeps its keys in insertion order and \<^verbatim>\<open>json.dump\<close> writes them in that
  order, so a facet is an association list in insertion order: key, then the list of ids.
\<close>

type_synonym facet = "(pystr \<times> int list) list"

record search_index =
  architects :: facet
  years :: facet
  categories :: facet
  titles :: facet
  addresses :: facet

definition empty_index :: search_index where
  "empty_index = \<lparr> architects = [], years = [], categories = [], titles = [], addresses = [] \<rparr>"

text \<open>
  \<^verbatim>\<open>if key not in d: d[key] = []\<close> followed by \<^verbatim>\<open>d[key].append(item_id)\<close>.
\<close>

fun facet_append :: "pystr \<Rightarrow> int \<Rightarrow> facet \<Rightarrow> facet" where
  "facet_append key item_id [] = [(key, [item_id])]"
| "facet_append key item_id ((k, ids) # rest) =
     (if k = key then (k, ids @ [item_id]) # rest
      else (k, ids) # facet_append key item_id rest)"

text \<open>Lines 129-133.\<close>

definition index_architect :: "(pystr \<Rightarrow> pystr) \<Rightarrow> 'f row \<Rightarrow> search_index \<Rightarrow> search_index" where
  "index_architect lower item idx =
     (case architect item of
        None \<Rightarrow> idx
      | Some a \<Rightarrow>
          if a \<noteq> [] \<and> a \<noteq> unknown_architect
          then idx\<lparr>architects := facet_append (lower a) (id' item) (architects idx)\<rparr>
          else idx)"

text \<open>Lines 136-140.\<close>

definition index_year :: "'f row \<Rightarrow> search_index \<Rightarrow> search_index" where
  "index_year item idx =
     (case year item of
        None \<Rightarrow> idx
      | Some y \<Rightarrow>
          if y \<noteq> 0
          then idx\<lparr>years := facet_append (py_str y) (id' item) (years idx)\<rparr>
          else idx)"

text \<open>Lines 145-150: the loop over the parts of the title.\<close>

fun index_title_parts :: "pystr list \<Rightarrow> int \<Rightarrow> facet \<Rightarrow> facet" where
  "index_title_parts [] item_id f = f"
| "index_title_parts (part # parts) item_id f =
     index_title_parts parts item_id
       (if length part \<ge> 2 then facet_append (take 3 part) item_id f else f)"

text \<open>Lines 143-150.\<close>

definition index_title :: "(pystr \<Rightarrow> pystr) \<Rightarrow> 'f row \<Rightarrow> search_index \<Rightarrow> search_index" where
  "index_title lower item idx =
     (case title item of
        None \<Rightarrow> idx
      | Some t \<Rightarrow>
          if t \<noteq> []
          then idx\<lparr>titles := index_title_parts (py_split (lower t)) (id' item) (titles idx)\<rparr>
          else idx)"

text \<open>Lines 153-157.\<close>

definition index_category :: "(pystr \<Rightarrow> pystr) \<Rightarrow> 'f row \<Rightarrow> search_index \<Rightarrow> search_index" where
  "index_category lower item idx =
     (case category item of
        None \<Rightarrow> idx
      | Some c \<Rightarrow>
          if c \<noteq> []
          then idx\<lparr>categories := facet_append (lower c) (id' item) (categories idx)\<rparr>
          else idx)"

text \<open>Lines 160-165.\<close>

definition index_address :: "(pystr \<Rightarrow> pystr) \<Rightarrow> 'f row \<Rightarrow> search_index \<Rightarrow> search_index" where
  "index_address lower item idx =
     (case address item of
        None \<Rightarrow> idx
      | Some a \<Rightarrow>
          if a \<noteq> [] \<and> a \<noteq> unknown_address
          then idx\<lparr>addresses := facet_append (take 5 (lower a)) (id' item) (addresses idx)\<rparr>
          else idx)"

text \<open>The body of the loop of line 125, and the loop.\<close>

definition index_item :: "(pystr \<Rightarrow> pystr) \<Rightarrow> 'f row \<Rightarrow> search_index \<Rightarrow> search_index" where
  "index_item lower item idx =
     index_address lower item
       (index_category lower item
         (index_title lower item
           (index_year item
             (index_architect lower item idx))))"

fun index_items :: "(pystr \<Rightarrow> pystr) \<Rightarrow> 'f row list \<Rightarrow> search_index \<Rightarrow> search_index" where
  "index_items lower [] idx = idx"
| "index_items lower (item # rest) idx = index_items lower rest (index_item lower item idx)"

definition build_index :: "(pystr \<Rightarrow> pystr) \<Rightarrow> 'f row list \<Rightarrow> search_index" where
  "build_index lower all_items = index_items lower all_items empty_index"

section \<open>The world of the script: database, files, failures\<close>

text \<open>
  The exceptions the script can meet: \<^verbatim>\<open>sqlite3.Error\<close> from the database calls and
  \<^verbatim>\<open>OSError\<close> from the file system calls.
\<close>

datatype exn = Sqlite3Error | OSError

text \<open>
  The calls of the script that reach outside the process, in the order of their first
  use: \<^verbatim>\<open>os.makedirs\<close> (line 23), \<^verbatim>\<open>sqlite3.connect\<close> with \<^verbatim>\<open>conn.cursor\<close> (lines 27-29),
  the COUNT query (lines 37-38), a page query with its limit and offset (lines 52-76),
  \<^verbatim>\<open>open\<close> with \<^verbatim>\<open>json.dump\<close> on a path (lines 104, 169, 184), the listing of the file
  sizes (lines 190-191) and \<^verbatim>\<open>conn.close\<close> (line 207). An event is a call with whether
  it returned normally. Opening the connection is one step: \<^verbatim>\<open>conn.cursor\<close> on a connection
  that has just been opened is taken not to raise. So are \<^verbatim>\<open>print\<close> and \<^verbatim>\<open>conn.close\<close>.
\<close>

datatype operation =
    MakeDirs pystr
  | Connect pystr
  | ExecuteCount
  | ExecuteSelect nat nat
  | WriteJson pystr
  | ListSizes pystr
  | Close

type_synonym event = "operation \<times> bool"

text \<open>
  What \<^verbatim>\<open>json.dump\<close> is given at lines 105, 170 and 185: the page dict, the search index,
  the metadata dict. The written bytes are a function of this value and of the fixed
  options of the call. \<open>Truncated\<close> is a file that was opened for writing and whose dump
  did not complete.
\<close>

datatype 'f document =
    PageDoc (page: nat) (total_pages: nat) (items_per_page: nat) (total_items: nat)
      (items: "'f row list")
  | SearchIndexDoc (search_index: search_index)
  | MetadataDoc (total_items: nat) (total_pages: nat) (items_per_page: nat)
      (generated_at: pystr) (format_version: pystr)
  | Truncated

datatype write_fault = OpenFails | DumpFails

text \<open>
  Everything outside the process that a run depends on: the rows of the table, which of
  the calls raise, and the clock reading \<^verbatim>\<open>datetime.now().isoformat()\<close>.
\<close>

record 'f environment =
  table :: "'f row list"
  makedirs_raises :: bool
  connect_raises :: bool
  count_raises :: bool
  select_raises :: "nat \<Rightarrow> nat \<Rightarrow> bool"
  write_raises :: "pystr \<Rightarrow> write_fault option"
  sizes_raise :: bool
  now_isoformat :: pystr

text \<open>The state a run changes: the files by path, and the events so far.\<close>

record 'f world =
  files :: "pystr \<rightharpoonup> 'f document"
  events :: "event list"

definition record_event :: "operation \<Rightarrow> bool \<Rightarrow> 'f world \<Rightarrow> 'f world" where
  "record_event opn ok w = w\<lparr>events := events w @ [(opn, ok)]\<rparr>"

definition makedirs :: "'f environment \<Rightarrow> pystr \<Rightarrow> 'f world \<Rightarrow> exn option \<times> 'f world" where
  "makedirs env dir w =
     (if makedirs_raises env then (Some OSError, record_event (MakeDirs dir) False w)
      else (None, record_event (MakeDirs dir) True w))"

definition connect :: "'f environment \<Rightarrow> pystr \<Rightarrow> 'f world \<Rightarrow> exn option \<times> 'f world" where
  "connect env db_path w =
     (if connect_raises env then (Some Sqlite3Error, record_event (Connect db_path) False w)
      else (None, record_event (Connect db_path) True w))"

text \<open>\<^verbatim>\<open>SELECT COUNT(*) FROM ZCDARCHITECTURE\<close> and \<^verbatim>\<open>fetchone()[0]\<close>.\<close>

definition execute_count :: "'f environment \<Rightarrow> 'f world \<Rightarrow> (exn + nat) \<times> 'f world" where
  "execute_count env w =
     (if count_raises env then (Inl Sqlite3Error, record_event ExecuteCount False w)
      else (Inr (length (table env)), record_event ExecuteCount True w))"

text \<open>
  The query of lines 52-74 with \<^verbatim>\<open>fetchall()\<close>: the rows in ascending \<^verbatim>\<open>Z_PK\<close>, \<open>lmt\<close> of
  them after the first \<open>offset\<close>.
\<close>

definition execute_select ::
  "'f environment \<Rightarrow> nat \<Rightarrow> nat \<Rightarrow> 'f world \<Rightarrow> (exn + 'f row list) \<times> 'f world" where
  "execute_select env lmt offset w =
     (if select_raises env lmt offset
      then (Inl Sqlite3Error, record_event (ExecuteSelect lmt offset) False w)
      else (Inr (take lmt (drop offset (sort_key id' (table env)))),
            record_event (ExecuteSelect lmt offset) True w))"

text \<open>\<^verbatim>\<open>with open(path, 'w', encoding='utf-8') as f: json.dump(doc, f, ...)\<close>.\<close>

definition write_json ::
  "'f environment \<Rightarrow> pystr \<Rightarrow> 'f document \<Rightarrow> 'f world \<Rightarrow> exn option \<times> 'f world" where
  "write_json env path doc w =
     (case write_raises env path of
        None \<Rightarrow> (None, record_event (WriteJson path) True (w\<lparr>files := (files w)(path \<mapsto> doc)\<rparr>))
      | Some OpenFails \<Rightarrow> (Some OSError, record_event (WriteJson path) False w)
      | Some DumpFails \<Rightarrow>
          (Some OSError, record_event (WriteJson path) False (w\<lparr>files := (files w)(path \<mapsto> Truncated)\<rparr>)))"

definition list_sizes :: "'f environment \<Rightarrow> pystr \<Rightarrow> 'f world \<Rightarrow> exn option \<times> 'f world" where
  "list_sizes env dir w =
     (if sizes_raise env then (Some OSError, record_event (ListSizes dir) False w)
      else (None, record_event (ListSizes dir) True w))"

definition close :: "'f world \<Rightarrow> 'f world" where
  "close w = record_event Close True w"

section \<open>The export (lines 15-207)\<close>

definition items_per_page' :: nat where
  "items_per_page' = 50"

text \<open>
  \<^verbatim>\<open>math.ceil(total_count / items_per_page)\<close> (line 43). The quotient is taken over the reals;
  the floating point quotient of the script has the same ceiling for every count a
  database file can hold.
\<close>

definition page_count :: "nat \<Rightarrow> nat \<Rightarrow> nat" where
  "page_count total_count per_page = nat \<lceil>real total_count / real per_page\<rceil>"

definition page_file :: "pystr \<Rightarrow> nat \<Rightarrow> pystr" where
  "page_file output_dir n = output_dir @ ascii ''/page_'' @ str_nat n @ ascii ''.json''"

definition index_file :: "pystr \<Rightarrow> pystr" where
  "index_file output_dir = output_dir @ ascii ''/search_index.json''"

definition metadata_file :: "pystr \<Rightarrow> pystr" where
  "metadata_file output_dir = output_dir @ ascii ''/metadata.json''"

text \<open>
  The loop of lines 49-113 over the page numbers still to do. It carries \<^verbatim>\<open>all_items\<close>
  and the world, and stops at the first exception. The inner loop of lines 79-100
  appends one item per row to \<^verbatim>\<open>page_data\<close> and to \<^verbatim>\<open>all_items\<close>.
\<close>

fun export_pages ::
  "'f environment \<Rightarrow> pystr \<Rightarrow> nat \<Rightarrow> nat \<Rightarrow> nat list \<Rightarrow> 'f row list \<Rightarrow> 'f world
     \<Rightarrow> exn option \<times> 'f row list \<times> 'f world" where
  "export_pages env output_dir total_count n_pages [] all_items w = (None, all_items, w)"
| "export_pages env output_dir total_count n_pages (pg # rest) all_items w =
     (case execute_select env items_per_page' (pg * items_per_page') w of
        (Inl e, w1) \<Rightarrow> (Some e, all_items, w1)
      | (Inr rows, w1) \<Rightarrow>
          (let page_data = map make_item rows;
               all_items1 = all_items @ page_data
           in case write_json env (page_file output_dir (pg + 1))
                     (PageDoc (pg + 1) n_pages items_per_page' total_count page_data) w1 of
                (Some e, w2) \<Rightarrow> (Some e, all_items1, w2)
              | (None, w2) \<Rightarrow>
                  export_pages env output_dir total_count n_pages rest all_items1 w2))"

text \<open>The body of the \<^verbatim>\<open>try\<close> of lines 35-201: \<open>None\<close> when it reaches \<^verbatim>\<open>return True\<close>.\<close>

definition export_body ::
  "(pystr \<Rightarrow> pystr) \<Rightarrow> 'f environment \<Rightarrow> pystr \<Rightarrow> 'f world \<Rightarrow> exn option \<times> 'f world" where
  "export_body lower env output_dir w =
     (case execute_count env w of
        (Inl e, w1) \<Rightarrow> (Some e, w1)
      | (Inr total_count, w1) \<Rightarrow>
          (let n_pages = page_count total_count items_per_page'
           in case export_pages env output_dir total_count n_pages [0..<n_pages] [] w1 of
                (Some e, all_items, w2) \<Rightarrow> (Some e, w2)
              | (None, all_items, w2) \<Rightarrow>
                  (case write_json env (index_file output_dir)
                          (SearchIndexDoc (build_index lower all_items)) w2 of
                     (Some e, w3) \<Rightarrow> (Some e, w3)
                   | (None, w3) \<Rightarrow>
                       (case write_json env (metadata_file output_dir)
                               (MetadataDoc total_count n_pages items_per_page'
                                  (now_isoformat env) (ascii ''1.0'')) w3 of
                          (Some e, w4) \<Rightarrow> (Some e, w4)
                        | (None, w4) \<Rightarrow> list_sizes env output_dir w4))))"

text \<open>
  How a call of the function ends: it returns a boolean, or an exception leaves it
  (only \<^verbatim>\<open>os.makedirs\<close> stands outside every \<^verbatim>\<open>try\<close>).
\<close>

datatype outcome = Returned bool | Raised exn

definition export_architecture_data ::
  "(pystr \<Rightarrow> pystr) \<Rightarrow> 'f environment \<Rightarrow> pystr \<Rightarrow> pystr \<Rightarrow> 'f world \<Rightarrow> outcome \<times> 'f world" where
  "export_architecture_data lower env db_path output_dir w =
     (case makedirs env output_dir w of
        (Some e, w0) \<Rightarrow> (Raised e, w0)
      | (None, w0) \<Rightarrow>
          (case connect env db_path w0 of
             (Some e, w1) \<Rightarrow> (Returned False, w1)
           | (None, w1) \<Rightarrow>
               (case export_body lower env output_dir w1 of
                  (Some e, w2) \<Rightarrow> (Returned False, close w2)
                | (None, w2) \<Rightarrow> (Returned True, close w2))))"



section \<open>The index as the specification words it\<close>

text \<open>
  Section 3 of the specification gives, for each facet, the keys under which a record is
  filed: the full lowercase architect name; the year as its decimal string; the first
  three characters of each whitespace-split token of length at least 2 of the lowercase
  title; the full lowercase category; the first five characters of the lowercase address.
  A field with no value (NULL or the empty string) gives no key, and a record whose
  architect or address is the placeholder is left out of that facet.
\<close>

definition spec_architect_keys :: "(pystr \<Rightarrow> pystr) \<Rightarrow> 'f row \<Rightarrow> pystr list" where
  "spec_architect_keys lower item =
     (case architect item of
        None \<Rightarrow> []
      | Some a \<Rightarrow> if a = [] \<or> a = unknown_architect then [] else [lower a])"

definition spec_year_keys :: "'f row \<Rightarrow> pystr list" where
  "spec_year_keys item =
     (case year item of None \<Rightarrow> [] | Some y \<Rightarrow> if y = 0 then [] else [py_str y])"

definition spec_title_keys :: "(pystr \<Rightarrow> pystr) \<Rightarrow> 'f row \<Rightarrow> pystr list" where
  "spec_title_keys lower item =
     (case title item of
        None \<Rightarrow> []
      | Some t \<Rightarrow>
          if t = [] then []
          else map (take 3) (filter (\<lambda>token. 2 \<le> length token) (py_split (lower t))))"

definition spec_category_keys :: "(pystr \<Rightarrow> pystr) \<Rightarrow> 'f row \<Rightarrow> pystr list" where
  "spec_category_keys lower item =
     (case category item of None \<Rightarrow> [] | Some c \<Rightarrow> if c = [] then [] else [lower c])"

definition spec_address_keys :: "(pystr \<Rightarrow> pystr) \<Rightarrow> 'f row \<Rightarrow> pystr list" where
  "spec_address_keys lower item =
     (case address item of
        None \<Rightarrow> []
      | Some a \<Rightarrow> if a = [] \<or> a = unknown_address then [] else [take 5 (lower a)])"

text \<open>
  The ids filed under key \<open>k\<close>: one occurrence per key occurrence, in processing order,
  nothing removed. A key is present when some id is filed under it.
\<close>

definition spec_ids :: "('f row \<Rightarrow> pystr list) \<Rightarrow> 'f row list \<Rightarrow> pystr \<Rightarrow> int list" where
  "spec_ids keys all_items k =
     concat (map (\<lambda>item. map (\<lambda>_. id' item) (filter (\<lambda>k'. k' = k) (keys item))) all_items)"

definition spec_lookup :: "('f row \<Rightarrow> pystr list) \<Rightarrow> 'f row list \<Rightarrow> pystr \<Rightarrow> int list option" where
  "spec_lookup keys all_items k =
     (if spec_ids keys all_items k = [] then None else Some (spec_ids keys all_items k))"

section \<open>What a run leaves behind\<close>

text \<open>
  The notions in which the claims about a run are stated. The events of a run are those
  added to the world; a run is clean when every call returned normally; the files written
  are the paths of the \<^verbatim>\<open>json.dump\<close> calls that completed, in order.
\<close>

definition new_events :: "'f world \<Rightarrow> 'f world \<Rightarrow> event list" where
  "new_events w w' = drop (length (events w)) (events w')"

definition clean :: "event list \<Rightarrow> bool" where
  "clean t = list_all snd t"

fun written :: "event list \<Rightarrow> pystr list" where
  "written [] = []"
| "written ((WriteJson p, True) # t) = p # written t"
| "written (e # t) = written t"

text \<open>The items of the page file number \<open>n\<close>, empty when there is no such page file.\<close>

definition exported_page :: "'f world \<Rightarrow> pystr \<Rightarrow> nat \<Rightarrow> 'f row list" where
  "exported_page w output_dir n =
     (case files w (page_file output_dir n) of
        Some (PageDoc a b c d its) \<Rightarrow> its
      | _ \<Rightarrow> [])"

text \<open>Every entry of the five facets of an index.\<close>

definition index_entries :: "search_index \<Rightarrow> (pystr \<times> int list) list" where
  "index_entries idx = architects idx @ years idx @ categories idx @ titles idx @ addresses idx"



text \<open>
  What a run that returns \<^verbatim>\<open>True\<close> must have done, written without the control flow of the
  script: the items of page \<open>pg\<close> (counted from 0) and its document, all items, the files
  after the run given the files before it, and the events of the run.
\<close>

definition page_items :: "'f environment \<Rightarrow> nat \<Rightarrow> 'f row list" where
  "page_items env pg =
     map make_item (take items_per_page' (drop (pg * items_per_page') (sort_key id' (table env))))"

definition page_doc :: "'f environment \<Rightarrow> nat \<Rightarrow> 'f document" where
  "page_doc env pg =
     PageDoc (pg + 1) (page_count (length (table env)) items_per_page') items_per_page'
       (length (table env)) (page_items env pg)"

fun write_pages ::
  "'f environment \<Rightarrow> pystr \<Rightarrow> nat list \<Rightarrow> (pystr \<rightharpoonup> 'f document) \<Rightarrow> (pystr \<rightharpoonup> 'f document)" where
  "write_pages env output_dir [] fs = fs"
| "write_pages env output_dir (pg # rest) fs =
     write_pages env output_dir rest (fs(page_file output_dir (pg + 1) \<mapsto> page_doc env pg))"

definition all_items_of :: "'f environment \<Rightarrow> 'f row list" where
  "all_items_of env = map make_item (sort_key id' (table env))"

definition final_files ::
  "(pystr \<Rightarrow> pystr) \<Rightarrow> 'f environment \<Rightarrow> pystr \<Rightarrow> (pystr \<rightharpoonup> 'f document) \<Rightarrow> (pystr \<rightharpoonup> 'f document)" where
  "final_files lower env output_dir fs =
     (write_pages env output_dir [0..<page_count (length (table env)) items_per_page'] fs)
       (index_file output_dir \<mapsto> SearchIndexDoc (build_index lower (all_items_of env)),
        metadata_file output_dir \<mapsto>
          MetadataDoc (length (table env)) (page_count (length (table env)) items_per_page')
            items_per_page' (now_isoformat env) (ascii ''1.0''))"

definition pages_trace :: "pystr \<Rightarrow> nat list \<Rightarrow> event list" where
  "pages_trace output_dir pgs =
     concat (map (\<lambda>pg. [(ExecuteSelect items_per_page' (pg * items_per_page'), True),
                          (WriteJson (page_file output_dir (pg + 1)), True)]) pgs)"

definition body_trace :: "'f environment \<Rightarrow> pystr \<Rightarrow> event list" where
  "body_trace env output_dir =
     [(ExecuteCount, True)] @
     pages_trace output_dir [0..<page_count (length (table env)) items_per_page'] @
     [(WriteJson (index_file output_dir), True), (WriteJson (metadata_file output_dir), True),
      (ListSizes output_dir, True)]"

definition success_trace :: "'f environment \<Rightarrow> pystr \<Rightarrow> pystr \<Rightarrow> event list" where
  "success_trace env db_path output_dir =
     [(MakeDirs output_dir, True), (Connect db_path, True)] @ body_trace env output_dir @
     [(Close, True)]"

section \<open>Auxiliary notions for the proofs\<close>

text \<open>The ids under a key of a facet, empty when the key is missing.\<close>

definition ids_of :: "facet \<Rightarrow> pystr \<Rightarrow> int list" where
  "ids_of f k = (case map_of f k of None \<Rightarrow> [] | Some l \<Rightarrow> l)"

text \<open>Filing one id under a list of keys, and the items of a list under their keys.\<close>

fun file_under :: "pystr list \<Rightarrow> int \<Rightarrow> facet \<Rightarrow> facet" where
  "file_under [] i f = f"
| "file_under (k # ks) i f = file_under ks i (facet_append k i f)"

fun fill :: "('f row \<Rightarrow> pystr list) \<Rightarrow> 'f row list \<Rightarrow> facet \<Rightarrow> facet" where
  "fill keys [] f = f"
| "fill keys (item # rest) f = fill keys rest (file_under (keys item) (id' item) f)"

text \<open>A facet built by \<open>facet_append\<close> has no key twice and no empty list.\<close>

definition wf_facet :: "facet \<Rightarrow> bool" where
  "wf_facet f = (distinct (map fst f) \<and> list_all (\<lambda>p. snd p \<noteq> []) f)"

text \<open>
  A sequence of events that stopped at its first failed call; the events of a step that
  ended with result \<open>r\<close> (none of them the release of the connection); and the events of
  a whole call of the function with its outcome.
\<close>

definition aborted :: "event list \<Rightarrow> bool" where
  "aborted t = (t \<noteq> [] \<and> \<not> snd (last t) \<and> clean (butlast t))"

definition run_ok :: "exn option \<Rightarrow> event list \<Rightarrow> bool" where
  "run_ok r t =
     (list_all (\<lambda>e. fst e \<noteq> Close) t \<and> (case r of None \<Rightarrow> clean t | Some e \<Rightarrow> aborted t))"


section \<open>Sample inputs\<close>

text \<open>A row whose optional columns are all NULL; the concrete inputs below vary it.\<close>

definition null_row :: "int \<Rightarrow> unit row" where
  "null_row i = \<lparr> id' = i, title = None, architect = None, year = None, address = None,
      latitude = None, longitude = None, category = None, big_category = None,
      description = None, image_url = None, tags = None, prefecture = None,
      contractor = None, structural_designer = None, landscape_designer = None,
      shinkenchiku_url = None \<rparr>"

text \<open>A complete item, as \<open>make_item\<close> produces it.\<close>

definition sample_item :: "unit row" where
  "sample_item = make_item ((null_row 42)\<lparr>title := Some (ascii ''Azuma  House AZUL x''),
     architect := Some (ascii ''Tadao Ando''), year := Some 1976,
     category := Some (ascii ''House''), address := Some (ascii ''Osaka, Sumiyoshi'')\<rparr>)"

text \<open>A table of two rows where no call fails, and a world with no file and no event.\<close>

definition sample_env :: "unit environment" where
  "sample_env = \<lparr> table = [(null_row 2)\<lparr>title := Some (ascii ''Azuma House'')\<rparr>, null_row 1],
     makedirs_raises = False, connect_raises = False, count_raises = False,
     select_raises = (\<lambda>lmt offset. False), write_raises = (\<lambda>path. None),
     sizes_raise = False, now_isoformat = ascii ''2024-05-01T12:00:00'' \<rparr>"

definition empty_world :: "unit world" where
  "empty_world = \<lparr> files = Map.empty, events = [] \<rparr>"

text \<open>The same with fifty-one rows, stored in descending id.\<close>

definition reversed_env :: "unit environment" where
  "reversed_env = sample_env\<lparr>table := map (\<lambda>i. null_row (int i)) (rev [1..<52])\<rparr>"

text \<open>
  Runs on these inputs: a run that succeeds, a second run on the files the first one left
  and with a later clock reading, a run in which every write fails in mid-dump, a run on
  an empty table, and a run on the fifty-one rows.
\<close>

definition sample_run :: "outcome \<times> unit world" where
  "sample_run =
     export_architecture_data ascii_lower sample_env (ascii ''db.sqlite3'') (ascii ''out'')
       empty_world"

definition second_run :: "outcome \<times> unit world" where
  "second_run =
     export_architecture_data ascii_lower
       (sample_env\<lparr>now_isoformat := ascii ''2024-05-02T09:30:00''\<rparr>)
       (ascii ''db.sqlite3'') (ascii ''out'') (snd sample_run)"


definition empty_run :: "outcome \<times> unit world" where
  "empty_run =
     export_architecture_data ascii_lower (sample_env\<lparr>table := []\<rparr>)
       (ascii ''db.sqlite3'') (ascii ''out'') empty_world"

definition reversed_run :: "outcome \<times> unit world" where
  "reversed_run =
     export_architecture_data ascii_lower reversed_env (ascii ''db.sqlite3'') (ascii ''out'')
       empty_world"

section \<open>Normalisation of a row\<close>

lemma py_or_eq:
  "py_or v d = (case v of None \<Rightarrow> Some d | Some s \<Rightarrow> if s = [] then Some d else Some s)"
  by (simp add: py_or_def truthy_str_def split: option.split)

lemma year_or_none_eq:
  "year_or_none v = (case v of None \<Rightarrow> None | Some n \<Rightarrow> if 0 < n then Some n else None)"
  by (auto simp: year_or_none_def truthy_int_def split: option.split)

lemma str_nat_digit: "n < 10 \<Longrightarrow> str_nat n = [48 + n]"
  by (simp add: str_nat.simps [of n])

lemma str_nat_more: "10 \<le> n \<Longrightarrow> str_nat n = str_nat (n div 10) @ [48 + n mod 10]"
  by (simp add: str_nat.simps [of n])

section \<open>Facets built by appending\<close>

lemma map_of_facet_append:
  "map_of (facet_append k i f) k' =
     (if k' = k then Some (ids_of f k @ [i]) else map_of f k')"
  by (induction k i f rule: facet_append.induct) (auto simp: ids_of_def)

lemma ids_of_facet_append:
  "ids_of (facet_append k i f) k' = ids_of f k' @ (if k' = k then [i] else [])"
  by (simp add: ids_of_def map_of_facet_append split: option.split)

lemma keys_facet_append: "fst ` set (facet_append k i f) = insert k (fst ` set f)"
  by (induction k i f rule: facet_append.induct) (simp_all add: insert_commute)

lemma lists_facet_append:
  "list_all (\<lambda>p. snd p \<noteq> []) f \<Longrightarrow> list_all (\<lambda>p. snd p \<noteq> []) (facet_append k i f)"
  by (induction k i f rule: facet_append.induct) simp_all

lemma distinct_facet_append:
  "distinct (map fst f) \<Longrightarrow> distinct (map fst (facet_append k i f))"
  by (induction k i f rule: facet_append.induct) (auto simp: keys_facet_append)

lemma wf_facet_append: "wf_facet f \<Longrightarrow> wf_facet (facet_append k i f)"
  by (simp add: wf_facet_def distinct_facet_append lists_facet_append)

lemma wf_file_under: "wf_facet f \<Longrightarrow> wf_facet (file_under ks i f)"
  by (induction ks arbitrary: f) (simp_all add: wf_facet_append)

lemma wf_fill: "wf_facet f \<Longrightarrow> wf_facet (fill keys its f)"
  by (induction its arbitrary: f) (simp_all add: wf_file_under)

lemma ids_of_file_under:
  "ids_of (file_under ks i f) k = ids_of f k @ map (\<lambda>_. i) (filter (\<lambda>k'. k' = k) ks)"
  by (induction ks arbitrary: f) (auto simp: ids_of_facet_append)

lemma ids_of_fill: "ids_of (fill keys its f) k = ids_of f k @ spec_ids keys its k"
  by (induction its arbitrary: f) (simp_all add: spec_ids_def ids_of_file_under)

lemma wf_facet_lookup:
  assumes "wf_facet f"
  shows "map_of f k = (if ids_of f k = [] then None else Some (ids_of f k))"
proof (cases "map_of f k")
  case None
  then show ?thesis by (simp add: ids_of_def)
next
  case (Some l)
  then have "(k, l) \<in> set f" by (rule map_of_SomeD)
  with assms have "l \<noteq> []" by (auto simp: wf_facet_def list_all_iff)
  with Some show ?thesis by (simp add: ids_of_def)
qed

lemma fill_lookup:
  "distinct (map fst (fill keys its [])) \<and> map_of (fill keys its []) k = spec_lookup keys its k"
proof -
  have wf: "wf_facet (fill keys its [])"
    by (rule wf_fill) (simp add: wf_facet_def)
  have "ids_of [] k = []"
    by (simp add: ids_of_def)
  then have "ids_of (fill keys its []) k = spec_ids keys its k"
    by (simp add: ids_of_fill)
  with wf wf_facet_lookup [OF wf, of k] show ?thesis
    by (simp add: spec_lookup_def wf_facet_def)
qed

lemma index_title_parts_file_under:
  "index_title_parts parts i f =
     file_under (map (take 3) (filter (\<lambda>token. 2 \<le> length token) parts)) i f"
  by (induction parts arbitrary: f) simp_all

lemma index_architect_facets:
  "architects (index_architect lower item idx) =
     file_under (spec_architect_keys lower item) (id' item) (architects idx)"
  "years (index_architect lower item idx) = years idx"
  "titles (index_architect lower item idx) = titles idx"
  "categories (index_architect lower item idx) = categories idx"
  "addresses (index_architect lower item idx) = addresses idx"
  by (simp_all add: index_architect_def spec_architect_keys_def split: option.split)

lemma index_year_facets:
  "architects (index_year item idx) = architects idx"
  "years (index_year item idx) = file_under (spec_year_keys item) (id' item) (years idx)"
  "titles (index_year item idx) = titles idx"
  "categories (index_year item idx) = categories idx"
  "addresses (index_year item idx) = addresses idx"
  by (simp_all add: index_year_def spec_year_keys_def split: option.split)

lemma index_title_facets:
  "architects (index_title lower item idx) = architects idx"
  "years (index_title lower item idx) = years idx"
  "titles (index_title lower item idx) =
     file_under (spec_title_keys lower item) (id' item) (titles idx)"
  "categories (index_title lower item idx) = categories idx"
  "addresses (index_title lower item idx) = addresses idx"
  by (simp_all add: index_title_def spec_title_keys_def index_title_parts_file_under
      split: option.split)

lemma index_category_facets:
  "architects (index_category lower item idx) = architects idx"
  "years (index_category lower item idx) = years idx"
  "titles (index_category lower item idx) = titles idx"
  "categories (index_category lower item idx) =
     file_under (spec_category_keys lower item) (id' item) (categories idx)"
  "addresses (index_category lower item idx) = addresses idx"
  by (simp_all add: index_category_def spec_category_keys_def split: option.split)

lemma index_address_facets:
  "architects (index_address lower item idx) = architects idx"
  "years (index_address lower item idx) = years idx"
  "titles (index_address lower item idx) = titles idx"
  "categories (index_address lower item idx) = categories idx"
  "addresses (index_address lower item idx) =
     file_under (spec_address_keys lower item) (id' item) (addresses idx)"
  by (simp_all add: index_address_def spec_address_keys_def split: option.split)

lemma index_item_facets:
  "architects (index_item lower item idx) =
     file_under (spec_architect_keys lower item) (id' item) (architects idx)"
  "years (index_item lower item idx) = file_under (spec_year_keys item) (id' item) (years idx)"
  "titles (index_item lower item idx) =
     file_under (spec_title_keys lower item) (id' item) (titles idx)"
  "categories (index_item lower item idx) =
     file_under (spec_category_keys lower item) (id' item) (categories idx)"
  "addresses (index_item lower item idx) =
     file_under (spec_address_keys lower item) (id' item) (addresses idx)"
  by (simp_all add: index_item_def index_architect_facets index_year_facets
      index_title_facets index_category_facets index_address_facets)

lemma index_items_facets:
  "architects (index_items lower its idx) = fill (spec_architect_keys lower) its (architects idx)"
  "years (index_items lower its idx) = fill spec_year_keys its (years idx)"
  "titles (index_items lower its idx) = fill (spec_title_keys lower) its (titles idx)"
  "categories (index_items lower its idx) = fill (spec_category_keys lower) its (categories idx)"
  "addresses (index_items lower its idx) = fill (spec_address_keys lower) its (addresses idx)"
  by (induction its arbitrary: idx)
     (simp_all add: index_item_facets)

lemma build_index_facets:
  "architects (build_index lower its) = fill (spec_architect_keys lower) its []"
  "years (build_index lower its) = fill spec_year_keys its []"
  "titles (build_index lower its) = fill (spec_title_keys lower) its []"
  "categories (build_index lower its) = fill (spec_category_keys lower) its []"
  "addresses (build_index lower its) = fill (spec_address_keys lower) its []"
  by (simp_all add: build_index_def index_items_facets empty_index_def)

lemma set_spec_ids: "set (spec_ids keys its k) \<subseteq> id' ` set its"
  by (auto simp: spec_ids_def)

lemma sorted_spec_ids: "sorted (map id' its) \<Longrightarrow> sorted (spec_ids keys its k)"
proof (induction its)
  case Nil
  then show ?case by (simp add: spec_ids_def)
next
  case (Cons it its)
  have tl: "spec_ids keys (it # its) k =
      map (\<lambda>_. id' it) (filter (\<lambda>k'. k' = k) (keys it)) @ spec_ids keys its k"
    by (simp add: spec_ids_def)
  have "sorted (map (\<lambda>_. id' it) ks)" for ks :: "pystr list"
    by (induction ks) auto
  moreover have "\<forall>y \<in> set (spec_ids keys its k). id' it \<le> y"
    using Cons.prems set_spec_ids [of keys its k] by auto
  ultimately show ?case
    using Cons by (auto simp: tl sorted_append)
qed

lemma fill_entry_sorted:
  assumes "sorted (map id' its)" and "(k, ids) \<in> set (fill keys its [])"
  shows "sorted ids"
proof -
  have "distinct (map fst (fill keys its []))"
    using fill_lookup [of keys its k] by simp
  with assms(2) have "map_of (fill keys its []) k = Some ids"
    by simp
  then have "ids = spec_ids keys its k"
    using fill_lookup [of keys its k] by (simp add: spec_lookup_def split: if_splits)
  with assms(1) show ?thesis
    by (simp add: sorted_spec_ids)
qed

lemma index_item_placeholder_architect:
  "architect item = Some unknown_architect \<Longrightarrow>
     architects (index_item lower item idx) = architects idx"
  by (simp add: index_item_facets spec_architect_keys_def)

lemma index_item_placeholder_address:
  "address item = Some unknown_address \<Longrightarrow>
     addresses (index_item lower item idx) = addresses idx"
  by (simp add: index_item_facets spec_address_keys_def)

section \<open>Paths, page counts and the steps of a run\<close>

lemma str_nat_nonempty: "str_nat n \<noteq> []"
  by (subst str_nat.simps) simp

lemma str_nat_inj: "str_nat n = str_nat m \<Longrightarrow> n = m"
proof (induction n arbitrary: m rule: str_nat.induct)
  case (1 n)
  show ?case
  proof (cases "n < 10")
    case True
    show ?thesis
    proof (cases "m < 10")
      case True
      with \<open>n < 10\<close> "1.prems" show ?thesis by (simp add: str_nat_digit)
    next
      case False
      with \<open>n < 10\<close> "1.prems" show ?thesis
        by (simp add: str_nat_digit str_nat_more str_nat_nonempty [THEN not_sym])
    qed
  next
    case False
    show ?thesis
    proof (cases "m < 10")
      case True
      with \<open>\<not> n < 10\<close> "1.prems" show ?thesis
        by (simp add: str_nat_digit str_nat_more str_nat_nonempty)
    next
      case m: False
      from False m "1.prems"
      have eq: "str_nat (n div 10) = str_nat (m div 10)" and md: "n mod 10 = m mod 10"
        by (simp_all add: str_nat_more)
      from "1.IH" [OF False eq] have "n div 10 = m div 10" .
      with md show ?thesis
        by (metis div_mult_mod_eq)
    qed
  qed
qed

lemma page_file_inj: "page_file out n = page_file out m \<Longrightarrow> n = m"
  by (simp add: page_file_def str_nat_inj)

lemma page_file_neq:
  "page_file out n \<noteq> index_file out"
  "page_file out n \<noteq> metadata_file out"
  "index_file out \<noteq> metadata_file out"
  by (simp_all add: page_file_def index_file_def metadata_file_def ascii_def)

lemma ceil_div_int:
  fixes a b :: int
  assumes "0 < b"
  shows "- (- a div b) = (a + b - 1) div b"
proof -
  define q r where "q = a div b" and "r = a mod b"
  have a: "a = b * q + r"
    by (simp add: q_def r_def)
  have r: "0 \<le> r" "r < b"
    using assms by (simp_all add: r_def)
  show ?thesis
  proof (cases "r = 0")
    case True
    have "(a + b - 1) div b = q"
      by (rule int_div_pos_eq [where r = "b - 1"]) (use a True assms in \<open>simp_all\<close>)
    moreover have "- a div b = - q"
      using True assms by (simp add: zdiv_zminus1_eq_if q_def r_def)
    ultimately show ?thesis by simp
  next
    case False
    have "(a + b - 1) div b = q + 1"
      by (rule int_div_pos_eq [where r = "r - 1"])
        (use a False r in \<open>simp_all add: algebra_simps\<close>)
    moreover have "- a div b = - q - 1"
      using False assms by (simp add: zdiv_zminus1_eq_if q_def r_def)
    ultimately show ?thesis by simp
  qed
qed

lemma page_count_div:
  assumes "0 < m"
  shows "page_count n m = (n + m - 1) div m"
proof -
  have "\<lceil>real n / real m\<rceil> = \<lceil>of_int (int n) / of_int (int m) :: real\<rceil>"
    by simp
  also have "\<dots> = - (- int n div int m)"
    by (rule ceiling_divide_eq_div)
  also have "\<dots> = (int n + int m - 1) div int m"
    using assms by (simp add: ceil_div_int)
  also have "\<dots> = int ((n + m - 1) div m)"
    using assms by (simp add: zdiv_int of_nat_diff)
  finally show ?thesis
    by (simp add: page_count_def)
qed

lemma page_count_50: "page_count n items_per_page' = (n + 49) div 50"
  by (simp add: page_count_div items_per_page'_def)

lemma page_count_bounds:
  "n \<le> page_count n items_per_page' * 50"
  "page_count n items_per_page' * 50 < n + 50"
  by (simp_all add: page_count_50)

lemma concat_pages_take:
  "concat (map (\<lambda>pg. take m (drop (pg * m) xs)) [0..<k]) = take (k * m) xs"
proof (induction k)
  case 0
  then show ?case by simp
next
  case (Suc k)
  have "take (Suc k * m) xs = take (k * m + m) xs"
    by (simp add: add.commute)
  also have "\<dots> = take (k * m) xs @ take m (drop (k * m) xs)"
    by (rule take_add)
  finally show ?case
    using Suc by simp
qed

lemma makedirs_run:
  "makedirs env d w = (r, w1) \<Longrightarrow>
     files w1 = files w \<and> events w1 = events w @ [(MakeDirs d, r = None)] \<and>
     (r = None \<longleftrightarrow> \<not> makedirs_raises env)"
  by (auto simp: makedirs_def record_event_def split: if_splits)

lemma connect_run:
  "connect env d w = (r, w1) \<Longrightarrow>
     files w1 = files w \<and> events w1 = events w @ [(Connect d, r = None)] \<and>
     (r = None \<longleftrightarrow> \<not> connect_raises env)"
  by (auto simp: connect_def record_event_def split: if_splits)


lemma execute_count_Inr:
  "execute_count env w = (Inr n, w1) \<Longrightarrow>
     files w1 = files w \<and> events w1 = events w @ [(ExecuteCount, True)] \<and>
     n = length (table env) \<and> \<not> count_raises env"
  by (auto simp: execute_count_def record_event_def split: if_splits)


lemma execute_select_Inr:
  "execute_select env l off w = (Inr rows, w1) \<Longrightarrow>
     files w1 = files w \<and> events w1 = events w @ [(ExecuteSelect l off, True)] \<and>
     rows = take l (drop off (sort_key id' (table env)))"
  by (auto simp: execute_select_def record_event_def split: if_splits)

lemma write_json_None:
  "write_json env p d w = (None, w1) \<Longrightarrow>
     files w1 = (files w)(p \<mapsto> d) \<and> events w1 = events w @ [(WriteJson p, True)]"
  by (auto simp: write_json_def record_event_def split: option.splits write_fault.splits)


lemma list_sizes_run:
  "list_sizes env d w = (r, w1) \<Longrightarrow>
     files w1 = files w \<and> events w1 = events w @ [(ListSizes d, r = None)]"
  by (auto simp: list_sizes_def record_event_def split: if_splits)

lemma close_run: "files (close w) = files w \<and> events (close w) = events w @ [(Close, True)]"
  by (simp add: close_def record_event_def)

lemma export_pages_None:
  "export_pages env out (length (table env)) (page_count (length (table env)) items_per_page')
      pgs all_items w = (None, all_items', w') \<Longrightarrow>
     all_items' = all_items @ concat (map (page_items env) pgs) \<and>
     files w' = write_pages env out pgs (files w) \<and>
     events w' = events w @ pages_trace out pgs"
proof (induction pgs arbitrary: all_items w)
  case Nil
  then show ?case by (simp add: pages_trace_def)
next
  case (Cons pg pgs)
  from Cons.prems obtain rows w1 w2 where
    sel: "execute_select env items_per_page' (pg * items_per_page') w = (Inr rows, w1)" and
    wr: "write_json env (page_file out (pg + 1))
           (PageDoc (pg + 1) (page_count (length (table env)) items_per_page') items_per_page'
              (length (table env)) (map make_item rows)) w1 = (None, w2)" and
    rest: "export_pages env out (length (table env))
             (page_count (length (table env)) items_per_page') pgs
             (all_items @ map make_item rows) w2 = (None, all_items', w')"
    by (auto simp: Let_def split: prod.splits sum.splits option.splits)
  from execute_select_Inr [OF sel] have
    rows: "map make_item rows = page_items env pg" and
    f1: "files w1 = files w" and
    e1: "events w1 = events w @ [(ExecuteSelect items_per_page' (pg * items_per_page'), True)]"
    by (simp_all add: page_items_def)
  from write_json_None [OF wr] rows f1 e1 have
    f2: "files w2 = (files w)(page_file out (pg + 1) \<mapsto> page_doc env pg)" and
    e2: "events w2 = events w @ pages_trace out [pg]"
    by (simp_all add: page_doc_def pages_trace_def)
  note ih = Cons.IH [OF rest]
  have a: "all_items' = all_items @ concat (map (page_items env) (pg # pgs))"
    using ih rows by simp
  have b: "files w' = write_pages env out (pg # pgs) (files w)"
    by (simp only: write_pages.simps ih [THEN conjunct2, THEN conjunct1] f2)
  have c: "events w' = events w @ pages_trace out (pg # pgs)"
    using ih e2 by (simp add: pages_trace_def)
  from a b c show ?case
    by (intro conjI)
qed

lemma all_items_pages:
  "concat (map (page_items env) [0..<page_count (length (table env)) items_per_page']) =
     all_items_of env"
proof -
  let ?S = "sort_key id' (table env)"
  let ?k = "page_count (length (table env)) items_per_page'"
  have "page_items env = (\<lambda>pg. map make_item (take 50 (drop (pg * 50) ?S)))"
    by (simp add: fun_eq_iff page_items_def items_per_page'_def)
  then have "concat (map (page_items env) [0..<?k]) =
      map make_item (concat (map (\<lambda>pg. take 50 (drop (pg * 50) ?S)) [0..<?k]))"
    by (simp add: map_concat comp_def)
  also have "\<dots> = map make_item (take (?k * 50) ?S)"
    by (simp only: concat_pages_take)
  also have "\<dots> = map make_item ?S"
    using page_count_bounds(1) [of "length (table env)"] by simp
  finally show ?thesis
    by (simp add: all_items_of_def)
qed




lemma run_ok_pages_trace: "run_ok None (pages_trace out pgs)"
  by (induction pgs) (simp_all add: pages_trace_def run_ok_def clean_def)


lemma export_body_None:
  assumes "export_body lower env out w = (None, w')"
  shows "files w' = final_files lower env out (files w) \<and>
         events w' = events w @ body_trace env out"
proof -
  let ?n = "length (table env)"
  let ?np = "page_count ?n items_per_page'"
  from assms obtain n w1 where cnt: "execute_count env w = (Inr n, w1)"
    by (auto simp: export_body_def split: prod.splits sum.splits)
  from execute_count_Inr [OF cnt] have n: "n = ?n" and f1: "files w1 = files w"
    and e1: "events w1 = events w @ [(ExecuteCount, True)]"
    by simp_all
  from assms cnt n obtain all_items w2 where
    pages: "export_pages env out ?n ?np [0..<?np] [] w1 = (None, all_items, w2)"
    by (auto simp: export_body_def Let_def split: prod.splits option.splits)
  from export_pages_None [OF pages] have ai: "all_items = all_items_of env"
    and f2: "files w2 = write_pages env out [0..<?np] (files w)"
    and e2: "events w2 = events w @ [(ExecuteCount, True)] @ pages_trace out [0..<?np]"
    by (simp_all add: all_items_pages f1 e1)
  from assms cnt n pages ai obtain w3 where
    idx: "write_json env (index_file out) (SearchIndexDoc (build_index lower (all_items_of env))) w2
            = (None, w3)"
    by (auto simp: export_body_def Let_def split: prod.splits option.splits)
  from assms cnt n pages ai idx obtain w4 where
    meta: "write_json env (metadata_file out)
             (MetadataDoc ?n ?np items_per_page' (now_isoformat env) (ascii ''1.0'')) w3
            = (None, w4)"
    by (auto simp: export_body_def Let_def split: prod.splits option.splits)
  from assms cnt n pages ai idx meta have ls: "list_sizes env out w4 = (None, w')"
    by (simp add: export_body_def Let_def)
  from write_json_None [OF idx] write_json_None [OF meta] list_sizes_run [OF ls] f2 e2
  show ?thesis
    by (simp add: final_files_def body_trace_def)
qed


lemma export_True:
  assumes "export_architecture_data lower env db out w = (Returned True, w')"
  shows "files w' = final_files lower env out (files w) \<and>
         events w' = events w @ success_trace env db out"
proof -
  from assms obtain w0 where mk: "makedirs env out w = (None, w0)"
    by (auto simp: export_architecture_data_def split: prod.splits option.splits)
  from assms mk obtain w1 where cn: "connect env db w0 = (None, w1)"
    by (auto simp: export_architecture_data_def split: prod.splits option.splits)
  from assms mk cn obtain w2 where
    body: "export_body lower env out w1 = (None, w2)" and w': "w' = close w2"
    by (auto simp: export_architecture_data_def split: prod.splits option.splits)
  from makedirs_run [OF mk] connect_run [OF cn] export_body_None [OF body] close_run [of w2] w'
  show ?thesis
    by (simp add: success_trace_def)
qed


lemma new_events_append: "events w' = events w @ t \<Longrightarrow> new_events w w' = t"
  by (simp add: new_events_def)

lemma page_count_numeral: "page_count n 50 = (n + 49) div 50"
  using page_count_50 [of n] by (simp add: items_per_page'_def)

lemmas run_defs = export_architecture_data_def makedirs_def connect_def export_body_def
  execute_count_def page_count_numeral execute_select_def write_json_def record_event_def
  close_def list_sizes_def items_per_page'_def Let_def









lemma written_append: "written (a @ b) = written a @ written b"
  by (induction a rule: written.induct) simp_all

lemma written_pages_trace:
  "written (pages_trace out pgs) = map (\<lambda>pg. page_file out (Suc pg)) pgs"
  by (induction pgs) (simp_all add: pages_trace_def)

lemma map_shift_upt: "map (\<lambda>pg. f (Suc pg)) [0..<k] = map f [1..<Suc k]"
proof -
  have "map (\<lambda>pg. f (Suc pg)) [0..<k] = map f (map Suc [0..<k])"
    by (simp add: comp_def)
  also have "map Suc [0..<k] = [1..<Suc k]"
    by (simp only: map_Suc_upt One_nat_def)
  finally show ?thesis .
qed

lemma written_success_trace:
  "written (success_trace env db out) =
     map (page_file out) [1..<Suc (page_count (length (table env)) items_per_page')] @
     [index_file out, metadata_file out]"
  by (simp add: success_trace_def body_trace_def written_append written_pages_trace
      map_shift_upt del: upt_Suc)

lemma write_pages_other:
  "p \<notin> (\<lambda>pg. page_file out (Suc pg)) ` set pgs \<Longrightarrow> write_pages env out pgs fs p = fs p"
  by (induction pgs arbitrary: fs) auto

lemma write_pages_page:
  "pg \<in> set pgs \<Longrightarrow> write_pages env out pgs fs (page_file out (Suc pg)) = Some (page_doc env pg)"
proof (induction pgs arbitrary: fs)
  case Nil
  then show ?case by simp
next
  case (Cons a pgs)
  show ?case
  proof (cases "pg \<in> set pgs")
    case True
    then show ?thesis by (simp add: Cons.IH)
  next
    case False
    with Cons.prems have a: "a = pg" by simp
    from False have "page_file out (Suc pg) \<notin> (\<lambda>pg. page_file out (Suc pg)) ` set pgs"
      by (auto dest: page_file_inj)
    then show ?thesis
      by (simp add: a write_pages_other)
  qed
qed

lemma final_files_page:
  "pg < page_count (length (table env)) items_per_page' \<Longrightarrow>
     final_files lower env out fs (page_file out (Suc pg)) = Some (page_doc env pg)"
  using page_file_neq(1,2) [of out "Suc pg"]
  by (simp add: final_files_def write_pages_page)

lemma final_files_index:
  "final_files lower env out fs (index_file out) =
     Some (SearchIndexDoc (build_index lower (all_items_of env)))"
  using page_file_neq(3) [of out] by (simp add: final_files_def)

lemma final_files_metadata:
  "final_files lower env out fs (metadata_file out) =
     Some (MetadataDoc (length (table env)) (page_count (length (table env)) items_per_page')
            items_per_page' (now_isoformat env) (ascii ''1.0''))"
  by (simp add: final_files_def)

lemma final_files_other:
  "p \<noteq> index_file out \<Longrightarrow> p \<noteq> metadata_file out \<Longrightarrow>
   p \<notin> (\<lambda>pg. page_file out (Suc pg)) ` {..<page_count (length (table env)) items_per_page'} \<Longrightarrow>
     final_files lower env out fs p = fs p"
  by (simp add: final_files_def write_pages_other lessThan_atLeast0)

lemma build_index_Nil: "build_index lower [] = empty_index"
  by (simp add: build_index_def)

lemma in_slice_iff:
  "x \<in> set (take m (drop k xs)) \<longleftrightarrow> (\<exists>t<m. k + t < length xs \<and> xs ! (k + t) = x)"
proof
  assume "x \<in> set (take m (drop k xs))"
  then obtain i where i: "i < length (take m (drop k xs))" "take m (drop k xs) ! i = x"
    by (auto simp: in_set_conv_nth)
  then have "i < m" and ki: "k + i < length xs" by auto
  moreover from i ki have "xs ! (k + i) = x" by simp
  ultimately show "\<exists>t<m. k + t < length xs \<and> xs ! (k + t) = x" by blast
next
  assume "\<exists>t<m. k + t < length xs \<and> xs ! (k + t) = x"
  then obtain t where t: "t < m" "k + t < length xs" "xs ! (k + t) = x" by blast
  then have "t < length (take m (drop k xs))" "take m (drop k xs) ! t = x" by simp_all
  then show "x \<in> set (take m (drop k xs))" by (auto simp: in_set_conv_nth)
qed

lemma id_make_item: "id' (make_item r) = id' r"
  by (simp add: make_item_def)

lemma distinct_sorted_ids:
  "distinct (map id' (table env)) \<Longrightarrow> distinct (map id' (sort_key id' (table env)))"
proof -
  have "mset (map id' (sort_key id' (table env))) = mset (map id' (table env))"
    by simp
  then show "distinct (map id' (table env)) \<Longrightarrow> distinct (map id' (sort_key id' (table env)))"
    by (metis mset_eq_imp_distinct_iff)
qed

lemma length_page_items:
  "length (page_items env pg) = min 50 (length (table env) - pg * 50)"
  by (simp add: page_items_def items_per_page'_def)

lemma page_ids_iff:
  "i \<in> id' ` set (page_items env pg) \<longleftrightarrow>
     (\<exists>t<50. pg * 50 + t < length (table env) \<and> id' (sort_key id' (table env) ! (pg * 50 + t)) = i)"
proof -
  let ?S = "sort_key id' (table env)"
  have "id' ` set (page_items env pg) = id' ` set (take 50 (drop (pg * 50) ?S))"
    by (simp add: page_items_def items_per_page'_def image_image id_make_item)
  then have "i \<in> id' ` set (page_items env pg) \<longleftrightarrow>
      (\<exists>x. x \<in> set (take 50 (drop (pg * 50) ?S)) \<and> i = id' x)"
    by (simp only: image_iff Bex_def)
  also have "\<dots> \<longleftrightarrow> (\<exists>x. (\<exists>t<50. pg * 50 + t < length ?S \<and> ?S ! (pg * 50 + t) = x) \<and> i = id' x)"
    by (simp only: in_slice_iff)
  also have "\<dots> \<longleftrightarrow> (\<exists>t<50. pg * 50 + t < length (table env) \<and> id' (?S ! (pg * 50 + t)) = i)"
    by auto
  finally show ?thesis .
qed

lemma page_of_row:
  assumes d: "distinct (map id' (table env))" and r: "r \<in> set (table env)"
  shows "\<exists>!pg. pg < page_count (length (table env)) items_per_page' \<and>
               id' r \<in> id' ` set (page_items env pg)"
proof -
  let ?S = "sort_key id' (table env)"
  let ?n = "length (table env)"
  let ?np = "page_count ?n items_per_page'"
  have dS: "distinct (map id' ?S)" using d by (rule distinct_sorted_ids)
  from r have "r \<in> set ?S" by simp
  then obtain j where "j < length ?S" "?S ! j = r"
    unfolding in_set_conv_nth by blast
  then have j: "j < ?n" "?S ! j = r" by simp_all
  have iff: "id' r \<in> id' ` set (page_items env pg) \<longleftrightarrow> pg = j div 50" for pg
  proof
    assume "id' r \<in> id' ` set (page_items env pg)"
    then obtain t where t: "t < 50" "pg * 50 + t < ?n" "id' (?S ! (pg * 50 + t)) = id' r"
      unfolding page_ids_iff by blast
    have "pg * 50 + t = j"
      using nth_eq_iff_index_eq [OF dS, of "pg * 50 + t" j] t(2,3) j by simp
    with t(1) show "pg = j div 50" by auto
  next
    assume pg: "pg = j div 50"
    have "j mod 50 < 50" "pg * 50 + j mod 50 = j" by (simp_all add: pg)
    with j show "id' r \<in> id' ` set (page_items env pg)"
      unfolding page_ids_iff by metis
  qed
  have "j div 50 < ?np"
    using j(1) page_count_bounds(1) [of ?n] by (simp add: div_less_iff_less_mult)
  with iff show ?thesis by auto
qed

lemma export_pages_succeeds:
  assumes "\<forall>l off. \<not> select_raises env l off" "\<forall>p. write_raises env p = None"
  shows "fst (export_pages env out tc np pgs all_items w) = None"
proof (induction pgs arbitrary: all_items w)
  case Nil
  then show ?case by simp
next
  case (Cons pg pgs)
  then show ?case
    using assms
    by (simp add: execute_select_def write_json_def Let_def split: prod.splits)
qed

lemma export_succeeds:
  assumes "\<not> makedirs_raises env" "\<not> connect_raises env" "\<not> count_raises env"
    "\<forall>l off. \<not> select_raises env l off" "\<forall>p. write_raises env p = None" "\<not> sizes_raise env"
  shows "fst (export_architecture_data lower env db out w) = Returned True"
proof -
  have "fst (export_body lower env out w1) = None" for w1
  proof -
    let ?w = "record_event ExecuteCount True w1"
    let ?np = "page_count (length (table env)) items_per_page'"
    let ?pages = "export_pages env out (length (table env)) ?np [0..<?np] [] ?w"
    have "fst ?pages = None"
      using assms(4,5) by (rule export_pages_succeeds)
    then obtain a w2 where "?pages = (None, a, w2)"
      by (metis prod.collapse)
    with assms(3,5,6) show ?thesis
      by (simp add: export_body_def execute_count_def write_json_def list_sizes_def Let_def)
  qed
  then obtain w2 where "export_body lower env out
      (record_event (Connect db) True (record_event (MakeDirs out) True w)) = (None, w2)"
    by (metis prod.collapse)
  with assms(1,2) show ?thesis
    by (simp add: export_architecture_data_def makedirs_def connect_def)
qed

lemma exported_page_final:
  assumes "files w' = final_files lower env out fs"
    and "pg < page_count (length (table env)) items_per_page'"
  shows "exported_page w' out (Suc pg) = page_items env pg"
  using assms by (simp add: exported_page_def final_files_page page_doc_def)

lemma page_items_length:
  assumes "pg < page_count (length (table env)) items_per_page'"
  shows "0 < length (page_items env pg)" "length (page_items env pg) \<le> 50"
    "Suc pg < page_count (length (table env)) items_per_page' \<Longrightarrow> length (page_items env pg) = 50"
proof -
  let ?n = "length (table env)"
  from assms page_count_bounds(2) [of ?n] have "pg * 50 < ?n" by simp
  then show "0 < length (page_items env pg)" by (simp add: length_page_items)
  show "length (page_items env pg) \<le> 50" by (simp add: length_page_items)
  assume "Suc pg < page_count ?n items_per_page'"
  with page_count_bounds(2) [of ?n] have "Suc pg * 50 < ?n" by simp
  then show "length (page_items env pg) = 50" by (simp add: length_page_items)
qed

lemma exported_pages_final:
  assumes "files w' = final_files lower env out fs"
  shows "map (exported_page w' out) [1..<Suc (page_count (length (table env)) items_per_page')] =
         map (page_items env) [0..<page_count (length (table env)) items_per_page']"
proof -
  have "map (exported_page w' out) [1..<Suc (page_count (length (table env)) items_per_page')] =
        map (\<lambda>pg. exported_page w' out (Suc pg)) [0..<page_count (length (table env)) items_per_page']"
    by (simp only: map_shift_upt)
  also have "\<dots> = map (page_items env) [0..<page_count (length (table env)) items_per_page']"
    by (rule map_cong) (simp_all add: exported_page_final [OF assms])
  finally show ?thesis .
qed

lemma page_number_unique:
  assumes "\<exists>!pg. pg < np \<and> P (Suc pg)"
  shows "\<exists>!n. n \<in> {1..np} \<and> P n"
proof -
  from assms obtain pg where pg: "pg < np" "P (Suc pg)"
    and uniq: "\<And>pg'. pg' < np \<Longrightarrow> P (Suc pg') \<Longrightarrow> pg' = pg"
    by blast
  show ?thesis
  proof (rule ex1I [of _ "Suc pg"])
    from pg show "Suc pg \<in> {1..np} \<and> P (Suc pg)" by simp
  next
    fix n
    assume n: "n \<in> {1..np} \<and> P n"
    then obtain pg' where "n = Suc pg'" by (cases n) auto
    with n uniq [of pg'] show "n = Suc pg" by simp
  qed
qed

lemma same_table:
  assumes "table env2 = table env1"
  shows "page_doc env2 pg = page_doc env1 pg" "all_items_of env2 = all_items_of env1"
  using assms by (simp_all add: page_doc_def page_items_def all_items_of_def)

lemma final_files_agree:
  assumes "table env2 = table env1" and "p \<noteq> metadata_file out"
  shows "final_files lower env2 out (final_files lower env1 out fs) p =
         final_files lower env1 out fs p"
proof -
  let ?np = "page_count (length (table env1)) items_per_page'"
  consider "p = index_file out"
    | pg where "pg < ?np" "p = page_file out (Suc pg)"
    | "p \<noteq> index_file out" "p \<notin> (\<lambda>pg. page_file out (Suc pg)) ` {..<?np}"
    by blast
  then show ?thesis
  proof cases
    case 1
    then show ?thesis
      by (simp only: final_files_index same_table(2) [OF assms(1)])
  next
    case 2
    from 2(1) assms(1) have "pg < page_count (length (table env2)) items_per_page'"
      by simp
    then show ?thesis
      by (simp only: 2(2) final_files_page 2(1) same_table(1) [OF assms(1)])
  next
    case 3
    from 3(2) assms(1) have
      "p \<notin> (\<lambda>pg. page_file out (Suc pg)) ` {..<page_count (length (table env2)) items_per_page'}"
      by simp
    with 3(1) assms(2) show ?thesis
      by (simp only: final_files_other not_False_eq_True)
  qed
qed

lemma fill_entry:
  assumes "(k, ids) \<in> set (fill keys its [])"
  shows "ids = spec_ids keys its k"
proof -
  have "distinct (map fst (fill keys its []))"
    using fill_lookup [of keys its k] by simp
  with assms have "map_of (fill keys its []) k = Some ids"
    by simp
  then show ?thesis
    using fill_lookup [of keys its k] by (simp add: spec_lookup_def split: if_splits)
qed

lemma spec_ids_mem:
  "i \<in> set (spec_ids keys its k) \<longleftrightarrow> (\<exists>it \<in> set its. id' it = i \<and> k \<in> set (keys it))"
  by (auto simp: spec_ids_def)

lemma index_entry_cases:
  assumes "(k, ids) \<in> set (index_entries (build_index lower its))"
  shows "\<exists>keys. ids = spec_ids keys its k"
  using assms by (auto simp: index_entries_def build_index_facets dest: fill_entry)

lemma all_items_ids: "id' ` set (all_items_of env) = id' ` set (table env)"
  by (simp add: all_items_of_def image_image id_make_item)

lemma row_of_item:
  assumes "distinct (map id' (table env))" "r \<in> set (table env)"
    "it \<in> set (all_items_of env)" "id' it = id' r"
  shows "it = make_item r"
proof -
  from assms(3) obtain r' where r': "r' \<in> set (table env)" "it = make_item r'"
    by (auto simp: all_items_of_def)
  with assms(4) have "id' r' = id' r" by (simp add: id_make_item)
  with assms(1,2) r'(1) have "r' = r"
    by (auto simp: distinct_map dest: inj_onD)
  with r'(2) show ?thesis by simp
qed

lemma row_in_one_page:
  assumes "export_architecture_data lower env db_path output_dir w = (Returned True, w')"
    and dist: "distinct (map id' (table env))" and r: "r \<in> set (table env)"
  shows "\<exists>!n. n \<in> {1..page_count (length (table env)) 50} \<and>
              id' r \<in> id' ` set (exported_page w' output_dir n)"
proof -
  let ?np = "page_count (length (table env)) items_per_page'"
  from export_True [OF assms(1)] have
    f: "files w' = final_files lower env output_dir (files w)"
    by simp
  have "\<exists>!n. n \<in> {1..?np} \<and> id' r \<in> id' ` set (exported_page w' output_dir n)"
  proof (rule page_number_unique)
    have "(pg < ?np \<and> id' r \<in> id' ` set (exported_page w' output_dir (Suc pg))) =
          (pg < ?np \<and> id' r \<in> id' ` set (page_items env pg))" for pg
      using exported_page_final [OF f, of pg] by auto
    with page_of_row [OF dist r]
    show "\<exists>!pg. pg < ?np \<and> id' r \<in> id' ` set (exported_page w' output_dir (Suc pg))"
      by simp
  qed
  then show ?thesis
    by (simp only: items_per_page'_def)
qed

section \<open>The claims about one row\<close>

text \<open>
  Claim C3. The item's year is the row's year when that is a positive integer, and is
  absent in every other case: a NULL, a zero or a negative year.
\<close>

theorem make_item_year:
  "(\<forall>n. year r = Some n \<and> 0 < n \<longrightarrow> year (make_item r) = Some n) \<and>
   ((\<nexists>n. year r = Some n \<and> 0 < n) \<longrightarrow> year (make_item r) = None)"
  by (auto simp: make_item_def year_or_none_eq split: option.split)

theorem make_item_year_witness:
  "year (make_item ((null_row 7)\<lparr>year := Some 1923\<rparr>)) = Some 1923 \<and>
   year (make_item ((null_row 7)\<lparr>year := Some 0\<rparr>)) = None \<and>
   year (make_item ((null_row 7)\<lparr>year := Some (- 5)\<rparr>)) = None \<and>
   year (make_item (null_row 7)) = None"
  using make_item_year [of "(null_row 7)\<lparr>year := Some 1923\<rparr>"]
    make_item_year [of "(null_row 7)\<lparr>year := Some 0\<rparr>"]
    make_item_year [of "(null_row 7)\<lparr>year := Some (- 5)\<rparr>"]
    make_item_year [of "null_row 7"]
  by (simp add: null_row_def)

text \<open>
  Claim C4. The item's title, architect and address are the placeholder exactly when the
  row's value is NULL or the empty string, and the row's value otherwise; every other
  field of the item is the row's value, NULL included. The item is a function of the row
  alone: \<open>make_item\<close> has no other argument.
\<close>

theorem make_item_fields:
  "title (make_item r) =
     (if title r = None \<or> title r = Some [] then Some unknown_building else title r) \<and>
   architect (make_item r) =
     (if architect r = None \<or> architect r = Some [] then Some unknown_architect
      else architect r) \<and>
   address (make_item r) =
     (if address r = None \<or> address r = Some [] then Some unknown_address else address r) \<and>
   id' (make_item r) = id' r \<and>
   latitude (make_item r) = latitude r \<and>
   longitude (make_item r) = longitude r \<and>
   category (make_item r) = category r \<and>
   big_category (make_item r) = big_category r \<and>
   description (make_item r) = description r \<and>
   image_url (make_item r) = image_url r \<and>
   tags (make_item r) = tags r \<and>
   prefecture (make_item r) = prefecture r \<and>
   contractor (make_item r) = contractor r \<and>
   structural_designer (make_item r) = structural_designer r \<and>
   landscape_designer (make_item r) = landscape_designer r \<and>
   shinkenchiku_url (make_item r) = shinkenchiku_url r"
  by (simp add: make_item_def py_or_eq split: option.split)

theorem make_item_fields_witness:
  "title (make_item ((null_row 7)\<lparr>title := Some (ascii ''Azuma House''), address := Some []\<rparr>))
     = Some (ascii ''Azuma House'') \<and>
   architect (make_item ((null_row 7)\<lparr>title := Some (ascii ''Azuma House''), address := Some []\<rparr>))
     = Some unknown_architect \<and>
   address (make_item ((null_row 7)\<lparr>title := Some (ascii ''Azuma House''), address := Some []\<rparr>))
     = Some unknown_address \<and>
   category (make_item ((null_row 7)\<lparr>title := Some (ascii ''Azuma House''), address := Some []\<rparr>))
     = None"
  using make_item_fields
    [of "(null_row 7)\<lparr>title := Some (ascii ''Azuma House''), address := Some []\<rparr>"]
  by (simp add: null_row_def ascii_def)

section \<open>The claims about the index builder\<close>

text \<open>
  Claim C5. For every list of items and every lowering function, each facet of the built
  index maps a key to exactly the ids the specification files under it (the full
  lowercase architect; the decimal year; the first three characters of each token of
  length at least 2 of the lowercase title; the full lowercase category; the first five
  characters of the lowercase address), one occurrence per key occurrence and in
  processing order, with no key twice; when the items come in ascending id, every id list
  is ascending; and the items the export hands to the index builder, those of the rows
  sorted by id, do come in ascending id.
\<close>

theorem search_index_keys:
  "(\<forall>k. map_of (architects (build_index lower its)) k =
          spec_lookup (spec_architect_keys lower) its k) \<and>
   (\<forall>k. map_of (years (build_index lower its)) k = spec_lookup spec_year_keys its k) \<and>
   (\<forall>k. map_of (titles (build_index lower its)) k =
          spec_lookup (spec_title_keys lower) its k) \<and>
   (\<forall>k. map_of (categories (build_index lower its)) k =
          spec_lookup (spec_category_keys lower) its k) \<and>
   (\<forall>k. map_of (addresses (build_index lower its)) k =
          spec_lookup (spec_address_keys lower) its k) \<and>
   distinct (map fst (architects (build_index lower its))) \<and>
   distinct (map fst (years (build_index lower its))) \<and>
   distinct (map fst (titles (build_index lower its))) \<and>
   distinct (map fst (categories (build_index lower its))) \<and>
   distinct (map fst (addresses (build_index lower its))) \<and>
   (sorted (map id' its) \<longrightarrow>
      (\<forall>(k, ids) \<in> set (index_entries (build_index lower its)). sorted ids)) \<and>
   sorted (map id' (map make_item (sort_key id' rows)))"
proof -
  have "sorted ids"
    if "sorted (map id' its)" "(k, ids) \<in> set (index_entries (build_index lower its))"
    for k ids
    using that by (auto simp: index_entries_def build_index_facets dest: fill_entry_sorted)
  moreover have "map id' (map make_item (sort_key id' rows)) = map id' (sort_key id' rows)"
    by (simp add: id_make_item)
  then have "sorted (map id' (map make_item (sort_key id' rows)))"
    by (simp only: sorted_sort_key)
  ultimately show ?thesis
    by (simp add: build_index_facets fill_lookup) blast
qed

theorem search_index_keys_witness:
  "map_of (architects (build_index ascii_lower [sample_item, sample_item\<lparr>id' := 43\<rparr>]))
     (ascii ''tadao ando'') = Some [42, 43] \<and>
   map_of (years (build_index ascii_lower [sample_item, sample_item\<lparr>id' := 43\<rparr>]))
     (ascii ''1976'') = Some [42, 43] \<and>
   map_of (titles (build_index ascii_lower [sample_item, sample_item\<lparr>id' := 43\<rparr>]))
     (ascii ''azu'') = Some [42, 42, 43, 43] \<and>
   map_of (titles (build_index ascii_lower [sample_item, sample_item\<lparr>id' := 43\<rparr>]))
     (ascii ''x'') = None \<and>
   map_of (categories (build_index ascii_lower [sample_item, sample_item\<lparr>id' := 43\<rparr>]))
     (ascii ''house'') = Some [42, 43] \<and>
   map_of (addresses (build_index ascii_lower [sample_item, sample_item\<lparr>id' := 43\<rparr>]))
     (ascii ''osaka'') = Some [42, 43] \<and>
   sorted (map id' [sample_item, sample_item\<lparr>id' := 43\<rparr>]) \<and>
   list_all (\<lambda>(k, ids). sorted ids)
     (index_entries (build_index ascii_lower [sample_item, sample_item\<lparr>id' := 43\<rparr>]))"
proof -
  have s: "sorted (map id' [sample_item, sample_item\<lparr>id' := 43\<rparr>])"
    by (simp add: sample_item_def make_item_def null_row_def)
  have str: "str_nat 1976 = ascii ''1976''"
    by (simp add: str_nat_digit str_nat_more ascii_def)
  have keys:
    "spec_architect_keys ascii_lower sample_item = [ascii ''tadao ando'']"
    "spec_year_keys sample_item = [ascii ''1976'']"
    "spec_title_keys ascii_lower sample_item = [ascii ''azu'', ascii ''hou'', ascii ''azu'']"
    "spec_category_keys ascii_lower sample_item = [ascii ''house'']"
    "spec_address_keys ascii_lower sample_item = [ascii ''osaka'']"
    by (simp_all add: spec_architect_keys_def spec_year_keys_def spec_title_keys_def
        spec_category_keys_def spec_address_keys_def sample_item_def make_item_def
        null_row_def py_or_def truthy_str_def year_or_none_def truthy_int_def
        unknown_architect_def unknown_address_def ascii_def ascii_lower_def py_str_def
        py_split_def isspace_def str [unfolded ascii_def, simplified])
  have keys':
    "spec_architect_keys ascii_lower (sample_item\<lparr>id' := 43\<rparr>) = [ascii ''tadao ando'']"
    "spec_year_keys (sample_item\<lparr>id' := 43\<rparr>) = [ascii ''1976'']"
    "spec_title_keys ascii_lower (sample_item\<lparr>id' := 43\<rparr>)
       = [ascii ''azu'', ascii ''hou'', ascii ''azu'']"
    "spec_category_keys ascii_lower (sample_item\<lparr>id' := 43\<rparr>) = [ascii ''house'']"
    "spec_address_keys ascii_lower (sample_item\<lparr>id' := 43\<rparr>) = [ascii ''osaka'']"
    using keys
    by (simp_all add: spec_architect_keys_def spec_year_keys_def spec_title_keys_def
        spec_category_keys_def spec_address_keys_def)
  have ids: "id' sample_item = 42"
    by (simp add: sample_item_def make_item_def null_row_def)
  show ?thesis
    using search_index_keys [of ascii_lower "[sample_item, sample_item\<lparr>id' := 43\<rparr>]"
        "table sample_env"] s
    by (simp add: spec_lookup_def spec_ids_def keys keys' ids ascii_def list_all_iff)
qed

text \<open>
  Claim C2, at the input on which the code departs from it: a row with a NULL title gets
  the placeholder title, and its id is filed in the title facet under the first three
  characters of the placeholder. The architect and address facets test for their
  placeholder (\<open>index_item_placeholder_architect\<close>, \<open>index_item_placeholder_address\<close>);
  the title facet has no such test.
\<close>

theorem placeholder_title_is_indexed:
  "title (make_item (null_row 1)) = Some unknown_building \<and>
   titles (build_index ascii_lower [make_item (null_row 1)]) = [(take 3 unknown_building, [1])]"
  by (simp add: make_item_def null_row_def py_or_def truthy_str_def build_index_def
      index_item_def index_address_def index_category_def index_title_def index_year_def
      index_architect_def empty_index_def unknown_building_def unknown_architect_def
      unknown_address_def ascii_lower_def py_split_def isspace_def year_or_none_def
      truthy_int_def)

section \<open>The claims about a run\<close>





text \<open>
  Claim C7. When the table has no row and the run succeeds, the only files written are
  \<^verbatim>\<open>search_index.json\<close> and \<^verbatim>\<open>metadata.json\<close>, in this order: no page file. The index has
  its five facets, each empty; the metadata has 0 items, 0 pages and page size 50. Every
  other path keeps what it held.
\<close>

theorem empty_source_export:
  assumes "export_architecture_data lower env db_path output_dir w = (Returned True, w')"
    and "table env = []"
  shows "written (new_events w w') = [index_file output_dir, metadata_file output_dir] \<and>
         files w' = (files w)
           (index_file output_dir \<mapsto>
              SearchIndexDoc \<lparr> architects = [], years = [], categories = [], titles = [],
                addresses = [] \<rparr>,
            metadata_file output_dir \<mapsto>
              MetadataDoc 0 0 50 (now_isoformat env) (ascii ''1.0''))"
proof -
  from export_True [OF assms(1)] have
    f: "files w' = final_files lower env output_dir (files w)" and
    e: "new_events w w' = success_trace env db_path output_dir"
    by (simp_all add: new_events_append)
  have np: "page_count (length (table env)) items_per_page' = 0"
    by (simp add: assms(2) page_count_50)
  have "written (new_events w w') = [index_file output_dir, metadata_file output_dir]"
    by (simp add: e written_success_trace np del: upt_Suc)
  moreover have "all_items_of env = []"
    by (simp add: all_items_of_def assms(2))
  then have "final_files lower env output_dir (files w) = (files w)
           (index_file output_dir \<mapsto> SearchIndexDoc empty_index,
            metadata_file output_dir \<mapsto>
              MetadataDoc 0 0 50 (now_isoformat env) (ascii ''1.0''))"
    using np by (simp add: final_files_def assms(2) build_index_Nil items_per_page'_def)
  ultimately show ?thesis
    by (simp add: f empty_index_def)
qed

theorem empty_source_export_witness:
  "fst empty_run = Returned True \<and>
   written (new_events empty_world
     (snd empty_run))
     = [ascii ''out/search_index.json'', ascii ''out/metadata.json''] \<and>
   files (snd empty_run) (ascii ''out/search_index.json'')
     = Some (SearchIndexDoc \<lparr> architects = [], years = [], categories = [], titles = [],
                addresses = [] \<rparr>) \<and>
   files (snd empty_run) (ascii ''out/metadata.json'')
     = Some (MetadataDoc 0 0 50 (ascii ''2024-05-01T12:00:00'') (ascii ''1.0'')) \<and>
   files (snd empty_run) (ascii ''out/page_1.json'')
     = None"
proof -
  let ?run = "empty_run"
  have res: "fst ?run = Returned True"
    by (simp add: empty_run_def run_defs sample_env_def empty_world_def build_index_def)
  then have run: "export_architecture_data ascii_lower (sample_env\<lparr>table := []\<rparr>)
          (ascii ''db.sqlite3'') (ascii ''out'') empty_world = (Returned True, snd ?run)"
    by (simp add: prod_eq_iff empty_run_def)
  have tbl: "table (sample_env\<lparr>table := []\<rparr>) = []"
    by simp
  from empty_source_export [OF run tbl] res show ?thesis
    by (simp add: index_file_def metadata_file_def ascii_def sample_env_def empty_world_def)
qed

text \<open>
  Claim C1. For every table and a successful run, with \<open>np\<close> the ceiling of the row count
  over 50: the page files written are \<^verbatim>\<open>page_1.json\<close> to \<^verbatim>\<open>page_<np>.json\<close>, in this order
  (then the index and the metadata); the file of page \<open>n\<close> holds page number \<open>n\<close>, the
  page count, the page size 50, the row count and the page's items; every page holds at
  least one and at most 50 items, and exactly 50 unless it is the last; the pages in
  order, put end to end, are the items of all rows in ascending id, so that every record
  is in them exactly once; and when the ids are distinct, each row's id is in exactly one
  page.
\<close>

theorem pages_partition:
  assumes "export_architecture_data lower env db_path output_dir w = (Returned True, w')"
  shows "let np = page_count (length (table env)) 50;
             pages = map (exported_page w' output_dir) [1..<Suc np]
         in written (new_events w w') =
              map (page_file output_dir) [1..<Suc np] @
              [index_file output_dir, metadata_file output_dir] \<and>
            (\<forall>n \<in> {1..np}.
               files w' (page_file output_dir n) =
                 Some (PageDoc n np 50 (length (table env)) (exported_page w' output_dir n)) \<and>
               0 < length (exported_page w' output_dir n) \<and>
               length (exported_page w' output_dir n) \<le> 50 \<and>
               (n < np \<longrightarrow> length (exported_page w' output_dir n) = 50)) \<and>
            concat pages = map make_item (sort_key id' (table env)) \<and>
            sorted (map id' (concat pages)) \<and>
            mset (concat pages) = mset (map make_item (table env)) \<and>
            (distinct (map id' (table env)) \<longrightarrow>
               (\<forall>r \<in> set (table env).
                  \<exists>!n. n \<in> {1..np} \<and> id' r \<in> id' ` set (exported_page w' output_dir n)))"
proof -
  let ?np = "page_count (length (table env)) items_per_page'"
  let ?pages = "map (exported_page w' output_dir) [1..<Suc ?np]"
  have ipp: "items_per_page' = 50" by (simp add: items_per_page'_def)
  from export_True [OF assms] have
    f: "files w' = final_files lower env output_dir (files w)" and
    e: "new_events w w' = success_trace env db_path output_dir"
    by (simp_all add: new_events_append)
  have a: "written (new_events w w') =
      map (page_file output_dir) [1..<Suc ?np] @ [index_file output_dir, metadata_file output_dir]"
    by (simp only: e written_success_trace)
  have b: "files w' (page_file output_dir n) =
             Some (PageDoc n ?np 50 (length (table env)) (exported_page w' output_dir n)) \<and>
           0 < length (exported_page w' output_dir n) \<and>
           length (exported_page w' output_dir n) \<le> 50 \<and>
           (n < ?np \<longrightarrow> length (exported_page w' output_dir n) = 50)"
    if "n \<in> {1..?np}" for n
  proof -
    from that obtain pg where n: "n = Suc pg" and pg: "pg < ?np"
      by (cases n) auto
    have ep: "exported_page w' output_dir (Suc pg) = page_items env pg"
      using f pg by (rule exported_page_final)
    have "files w' (page_file output_dir (Suc pg)) = Some (page_doc env pg)"
      by (simp only: f final_files_page [OF pg])
    then show ?thesis
      using page_items_length [OF pg]
      by (simp add: n ep page_doc_def ipp)
  qed
  have pages: "?pages = map (page_items env) [0..<?np]"
    using f by (rule exported_pages_final)
  have c: "concat ?pages = map make_item (sort_key id' (table env))"
    by (simp only: pages all_items_pages all_items_of_def)
  have d: "sorted (map id' (concat ?pages))"
  proof -
    have "map id' (map make_item (sort_key id' (table env))) = map id' (sort_key id' (table env))"
      by (simp add: id_make_item)
    then show ?thesis
      by (simp only: c sorted_sort_key)
  qed
  have m: "mset (concat ?pages) = mset (map make_item (table env))"
    by (simp only: c) simp
  have u: "\<exists>!n. n \<in> {1..?np} \<and> id' r \<in> id' ` set (exported_page w' output_dir n)"
    if dist: "distinct (map id' (table env))" and r: "r \<in> set (table env)" for r
  proof (rule page_number_unique)
    have "(pg < ?np \<and> id' r \<in> id' ` set (exported_page w' output_dir (Suc pg))) =
          (pg < ?np \<and> id' r \<in> id' ` set (page_items env pg))" for pg
      using exported_page_final [OF f, of pg] by auto
    with page_of_row [OF dist r]
    show "\<exists>!pg. pg < ?np \<and> id' r \<in> id' ` set (exported_page w' output_dir (Suc pg))"
      by simp
  qed
  from a b c d m u show ?thesis
    unfolding Let_def ipp by blast
qed

theorem pages_partition_witness:
  "fst reversed_run = Returned True \<and>
   page_count (length (table reversed_env)) 50 = 2 \<and>
   written (new_events empty_world
     (snd reversed_run)) =
     [ascii ''out/page_1.json'', ascii ''out/page_2.json'', ascii ''out/search_index.json'',
      ascii ''out/metadata.json''] \<and>
   length (exported_page
     (snd reversed_run) (ascii ''out'') 1) = 50 \<and>
   0 < length (exported_page
     (snd reversed_run) (ascii ''out'') 2) \<and>
   sorted (map id' (concat (map (exported_page
     (snd reversed_run) (ascii ''out'')) [1, 2]))) \<and>
   mset (concat (map (exported_page
     (snd reversed_run) (ascii ''out'')) [1, 2])) =
     mset (map make_item (table reversed_env))"
proof -
  let ?run = "reversed_run"
  have res: "fst ?run = Returned True"
    unfolding reversed_run_def
    by (rule export_succeeds) (simp_all add: reversed_env_def sample_env_def)
  then have run: "export_architecture_data ascii_lower reversed_env (ascii ''db.sqlite3'')
        (ascii ''out'') empty_world = (Returned True, snd ?run)"
    by (simp add: prod_eq_iff reversed_run_def)
  have len: "length (table reversed_env) = 51"
    by (simp add: reversed_env_def)
  have np: "page_count 51 50 = 2"
    by (simp add: page_count_numeral)
  have upt: "[1..<Suc 2] = [1, 2]"
    by (simp add: upt_rec)
  have paths: "page_file (ascii ''out'') 1 = ascii ''out/page_1.json''"
    "page_file (ascii ''out'') 2 = ascii ''out/page_2.json''"
    "index_file (ascii ''out'') = ascii ''out/search_index.json''"
    "metadata_file (ascii ''out'') = ascii ''out/metadata.json''"
    by (simp_all add: page_file_def index_file_def metadata_file_def str_nat_digit ascii_def)
  note th = pages_partition [OF run, unfolded Let_def len np upt]
  from th have "written (new_events empty_world (snd ?run)) =
      map (page_file (ascii ''out'')) [1, 2] @
      [index_file (ascii ''out''), metadata_file (ascii ''out'')]"
    by (rule conjunct1)
  then have a: "written (new_events empty_world (snd ?run)) =
      [ascii ''out/page_1.json'', ascii ''out/page_2.json'', ascii ''out/search_index.json'',
       ascii ''out/metadata.json'']"
    by (simp only: paths list.map append_Cons append_Nil)
  from th have b: "\<forall>n \<in> {1..2}.
      files (snd ?run) (page_file (ascii ''out'') n) =
        Some (PageDoc n 2 50 51 (exported_page (snd ?run) (ascii ''out'') n)) \<and>
      0 < length (exported_page (snd ?run) (ascii ''out'') n) \<and>
      length (exported_page (snd ?run) (ascii ''out'') n) \<le> 50 \<and>
      (n < 2 \<longrightarrow> length (exported_page (snd ?run) (ascii ''out'') n) = 50)"
    by (rule conjunct2 [THEN conjunct1])
  from b have b1: "length (exported_page (snd ?run) (ascii ''out'') 1) = 50"
    by simp
  from b have b2: "0 < length (exported_page (snd ?run) (ascii ''out'') 2)"
    by simp
  from th have d: "sorted (map id' (concat (map (exported_page (snd ?run) (ascii ''out'')) [1, 2])))"
    by (rule conjunct2 [THEN conjunct2, THEN conjunct2, THEN conjunct1])
  from th have m: "mset (concat (map (exported_page (snd ?run) (ascii ''out'')) [1, 2])) =
      mset (map make_item (table reversed_env))"
    by (rule conjunct2 [THEN conjunct2, THEN conjunct2, THEN conjunct2, THEN conjunct1])
  from res len np a b1 b2 d m show ?thesis
    by (simp only: simp_thms)
qed

text \<open>
  Claim C6. Run the export, then run it again on the files the first run left, with the
  same table, the same paths and any clock reading, both runs succeeding. After the
  second run every file other than \<^verbatim>\<open>metadata.json\<close> holds what it held after the first:
  the page files and the index are rewritten with the same documents, the same files are
  written in the same order, and the two metadata documents have the same counts, page
  size and format version \<^verbatim>\<open>1.0\<close> and differ at most in \<^verbatim>\<open>generated_at\<close>. A file's bytes
  are a function of the document given to \<^verbatim>\<open>json.dump\<close>.
\<close>

theorem rerun_identical:
  assumes "export_architecture_data lower env1 db_path output_dir w0 = (Returned True, w1)"
    and "export_architecture_data lower env2 db_path output_dir w1 = (Returned True, w2)"
    and "table env2 = table env1"
  shows "(\<forall>p. p \<noteq> metadata_file output_dir \<longrightarrow> files w2 p = files w1 p) \<and>
         written (new_events w1 w2) = written (new_events w0 w1) \<and>
         files w1 (metadata_file output_dir) =
           Some (MetadataDoc (length (table env1)) (page_count (length (table env1)) 50) 50
                   (now_isoformat env1) (ascii ''1.0'')) \<and>
         files w2 (metadata_file output_dir) =
           Some (MetadataDoc (length (table env1)) (page_count (length (table env1)) 50) 50
                   (now_isoformat env2) (ascii ''1.0''))"
proof -
  from export_True [OF assms(1)] have
    f1: "files w1 = final_files lower env1 output_dir (files w0)" and
    e1: "new_events w0 w1 = success_trace env1 db_path output_dir"
    by (simp_all add: new_events_append)
  from export_True [OF assms(2)] have
    f2: "files w2 = final_files lower env2 output_dir (files w1)" and
    e2: "new_events w1 w2 = success_trace env2 db_path output_dir"
    by (simp_all add: new_events_append)
  have a: "files w2 p = files w1 p" if "p \<noteq> metadata_file output_dir" for p
    unfolding f2 f1 using assms(3) that by (rule final_files_agree)
  have b: "written (new_events w1 w2) = written (new_events w0 w1)"
    by (simp only: e1 e2 written_success_trace assms(3))
  have c: "files w1 (metadata_file output_dir) =
           Some (MetadataDoc (length (table env1)) (page_count (length (table env1)) 50) 50
                   (now_isoformat env1) (ascii ''1.0''))"
    by (simp add: f1 final_files_metadata items_per_page'_def)
  have d: "files w2 (metadata_file output_dir) =
           Some (MetadataDoc (length (table env1)) (page_count (length (table env1)) 50) 50
                   (now_isoformat env2) (ascii ''1.0''))"
    by (simp add: f2 final_files_metadata items_per_page'_def assms(3))
  from a b c d show ?thesis by blast
qed

theorem rerun_identical_witness:
  "fst sample_run = Returned True \<and>
   fst second_run = Returned True \<and>
   files (snd second_run) (ascii ''out/page_1.json'') =
     files (snd sample_run) (ascii ''out/page_1.json'') \<and>
   files (snd second_run) (ascii ''out/search_index.json'') =
     files (snd sample_run) (ascii ''out/search_index.json'') \<and>
   files (snd sample_run) (ascii ''out/metadata.json'') =
     Some (MetadataDoc 2 1 50 (ascii ''2024-05-01T12:00:00'') (ascii ''1.0'')) \<and>
   files (snd second_run) (ascii ''out/metadata.json'') =
     Some (MetadataDoc 2 1 50 (ascii ''2024-05-02T09:30:00'') (ascii ''1.0''))"
proof -
  let ?r1 = "(export_architecture_data ascii_lower sample_env (ascii ''db.sqlite3'') (ascii ''out'')
        empty_world)"
  let ?env2 = "(sample_env\<lparr>now_isoformat := ascii ''2024-05-02T09:30:00''\<rparr>)"
  let ?r2 = "export_architecture_data ascii_lower ?env2 (ascii ''db.sqlite3'') (ascii ''out'')
        (snd ?r1)"
  have res1: "fst ?r1 = Returned True"
    by (rule export_succeeds) (simp_all add: sample_env_def)
  have res2: "fst ?r2 = Returned True"
    by (rule export_succeeds) (simp_all add: sample_env_def)
  from res1 have run1: "?r1 = (Returned True, snd ?r1)"
    by (simp add: prod_eq_iff)
  from res2 have run2: "?r2 = (Returned True, snd ?r2)"
    by (simp add: prod_eq_iff)
  have tbl: "table ?env2 = table sample_env"
    by simp
  have len: "length (table sample_env) = 2" "page_count 2 50 = 1"
    by (simp_all add: sample_env_def page_count_numeral)
  have now: "now_isoformat sample_env = ascii ''2024-05-01T12:00:00''"
    "now_isoformat ?env2 = ascii ''2024-05-02T09:30:00''"
    by (simp_all add: sample_env_def)
  have meta: "metadata_file (ascii ''out'') = ascii ''out/metadata.json''"
    by (simp add: metadata_file_def ascii_def)
  have neq: "ascii ''out/page_1.json'' \<noteq> ascii ''out/metadata.json''"
    "ascii ''out/search_index.json'' \<noteq> ascii ''out/metadata.json''"
    by (simp_all add: ascii_def)
  note th = rerun_identical [OF run1 run2 tbl, unfolded len now meta]
  from th neq have same:
    "files (snd ?r2) (ascii ''out/page_1.json'') = files (snd ?r1) (ascii ''out/page_1.json'')"
    "files (snd ?r2) (ascii ''out/search_index.json'') =
       files (snd ?r1) (ascii ''out/search_index.json'')"
    by blast+
  from th have m1: "files (snd ?r1) (ascii ''out/metadata.json'') =
     Some (MetadataDoc 2 1 50 (ascii ''2024-05-01T12:00:00'') (ascii ''1.0''))"
    by (rule conjunct2 [THEN conjunct2, THEN conjunct1])
  from th have m2: "files (snd ?r2) (ascii ''out/metadata.json'') =
     Some (MetadataDoc 2 1 50 (ascii ''2024-05-02T09:30:00'') (ascii ''1.0''))"
    by (rule conjunct2 [THEN conjunct2, THEN conjunct2])
  from res1 res2 same m1 m2 show ?thesis
    unfolding second_run_def sample_run_def by (simp only: simp_thms)
qed

text \<open>
  Claim C10. After a successful run on a table with distinct ids, the written index is
  such that every id in any list of any of its five facets is the id of an item of
  exactly one of the pages 1 to \<open>np\<close> written by the run; the id of a row with a NULL
  category is in no list of the category facet, and the id of a row whose item has no
  year is in no list of the year facet.
\<close>

theorem index_ids_exported:
  assumes "export_architecture_data lower env db_path output_dir w = (Returned True, w')"
    and "distinct (map id' (table env))"
  shows "\<exists>idx. files w' (index_file output_dir) = Some (SearchIndexDoc idx) \<and>
           (\<forall>(k, ids) \<in> set (index_entries idx). \<forall>i \<in> set ids.
              \<exists>!n. n \<in> {1..page_count (length (table env)) 50} \<and>
                   i \<in> id' ` set (exported_page w' output_dir n)) \<and>
           (\<forall>r \<in> set (table env). category r = None \<longrightarrow>
              (\<forall>(k, ids) \<in> set (categories idx). id' r \<notin> set ids)) \<and>
           (\<forall>r \<in> set (table env). year (make_item r) = None \<longrightarrow>
              (\<forall>(k, ids) \<in> set (years idx). id' r \<notin> set ids))"
proof -
  let ?its = "all_items_of env"
  let ?idx = "build_index lower ?its"
  from export_True [OF assms(1)] have
    f: "files w' = final_files lower env output_dir (files w)"
    by simp
  have a: "files w' (index_file output_dir) = Some (SearchIndexDoc ?idx)"
    by (simp only: f final_files_index)
  have b: "\<exists>!n. n \<in> {1..page_count (length (table env)) 50} \<and>
               i \<in> id' ` set (exported_page w' output_dir n)"
    if "(k, ids) \<in> set (index_entries ?idx)" "i \<in> set ids" for k ids i
  proof -
    from index_entry_cases [OF that(1)] that(2) set_spec_ids
    have "i \<in> id' ` set ?its" by blast
    then obtain r where r: "r \<in> set (table env)" "i = id' r"
      unfolding all_items_ids by blast
    from row_in_one_page [OF assms r(1)] r(2) show ?thesis
      by simp
  qed
  have c: "id' r \<notin> set ids"
    if r: "r \<in> set (table env)" and none: "category r = None"
      and e: "(k, ids) \<in> set (categories ?idx)" for r k ids
  proof
    assume "id' r \<in> set ids"
    with e have "id' r \<in> set (spec_ids (spec_category_keys lower) ?its k)"
      by (auto simp: build_index_facets dest: fill_entry)
    then obtain it where it: "it \<in> set ?its" "id' it = id' r"
      "k \<in> set (spec_category_keys lower it)"
      unfolding spec_ids_mem by blast
    from row_of_item [OF assms(2) r it(1,2)] have "it = make_item r" .
    with it(3) none show False
      by (simp add: spec_category_keys_def make_item_def)
  qed
  have d: "id' r \<notin> set ids"
    if r: "r \<in> set (table env)" and none: "year (make_item r) = None"
      and e: "(k, ids) \<in> set (years ?idx)" for r k ids
  proof
    assume "id' r \<in> set ids"
    with e have "id' r \<in> set (spec_ids spec_year_keys ?its k)"
      by (auto simp: build_index_facets dest: fill_entry)
    then obtain it where it: "it \<in> set ?its" "id' it = id' r"
      "k \<in> set (spec_year_keys it)"
      unfolding spec_ids_mem by blast
    from row_of_item [OF assms(2) r it(1,2)] have "it = make_item r" .
    with it(3) none show False
      by (simp add: spec_year_keys_def)
  qed
  from a b c d show ?thesis
    by (intro exI [of _ ?idx]) blast
qed

theorem index_ids_exported_witness:
  "fst sample_run = Returned True \<and>
   distinct (map id' (table sample_env)) \<and>
   (\<exists>idx. files (snd sample_run) (ascii ''out/search_index.json'') = Some (SearchIndexDoc idx) \<and>
      titles idx \<noteq> [] \<and> categories idx = [] \<and> years idx = [] \<and>
      (\<forall>(k, ids) \<in> set (index_entries idx). \<forall>i \<in> set ids.
         \<exists>!n. n \<in> {1..1} \<and> i \<in> id' ` set (exported_page (snd sample_run) (ascii ''out'') n)))"
proof -
  let ?run = "sample_run"
  let ?idx = "build_index ascii_lower (all_items_of sample_env)"
  have res: "fst ?run = Returned True"
    unfolding sample_run_def
    by (rule export_succeeds) (simp_all add: sample_env_def)
  then have run: "export_architecture_data ascii_lower sample_env (ascii ''db.sqlite3'')
        (ascii ''out'') empty_world = (Returned True, snd ?run)"
    by (simp add: prod_eq_iff sample_run_def)
  have dist: "distinct (map id' (table sample_env))"
    by (simp add: sample_env_def null_row_def)
  have np: "page_count (length (table sample_env)) 50 = 1"
    by (simp add: sample_env_def page_count_numeral)
  have path: "index_file (ascii ''out'') = ascii ''out/search_index.json''"
    by (simp add: index_file_def ascii_def)
  from index_ids_exported [OF run dist, unfolded np path] obtain idx where
    idx: "files (snd ?run) (ascii ''out/search_index.json'') = Some (SearchIndexDoc idx)" and
    pages: "\<forall>(k, ids) \<in> set (index_entries idx). \<forall>i \<in> set ids.
         \<exists>!n. n \<in> {1..1} \<and> i \<in> id' ` set (exported_page (snd ?run) (ascii ''out'') n)"
    by blast
  from export_True [OF run] have
    "files (snd ?run) (index_file (ascii ''out'')) = Some (SearchIndexDoc ?idx)"
    by (simp only: final_files_index)
  with idx have idx_eq: "idx = ?idx"
    by (simp add: path)
  have its: "all_items_of sample_env =
      [make_item (null_row 1), make_item ((null_row 2)\<lparr>title := Some (ascii ''Azuma House'')\<rparr>)]"
    by (simp add: all_items_of_def sample_env_def null_row_def)
  have facets: "titles ?idx \<noteq> []" "categories ?idx = []" "years ?idx = []"
    by (simp_all add: its build_index_facets spec_title_keys_def spec_category_keys_def
        spec_year_keys_def make_item_def null_row_def py_or_def truthy_str_def
        year_or_none_def truthy_int_def unknown_building_def ascii_def ascii_lower_def
        py_split_def isspace_def)
  from res dist idx pages facets show ?thesis
    unfolding idx_eq by blast
qed

end
